theory Spec2Isabelle
  imports Main "HOL-Library.Char_ord" "HOL-Library.List_Lexorder" "HOL-Library.AList"
    "HOL-Library.Multiset" "HOL-Library.Product_Lexorder"
begin

section \<open>The ICPC management system of \<^verbatim>\<open>src/main.cpp\<close>\<close>

text \<open>
  The program keeps one \<^verbatim>\<open>ICPCManagementSystem\<close> object and applies the commands of its
  input to it one after the other. The embedding below follows the source function by
  function.

  \<^item> A \<^verbatim>\<open>std::map<string, V>\<close> is an association list with unique keys, read with
    \<open>map_of\<close> and written with \<open>AList.update\<close>. \<^verbatim>\<open>operator[]\<close> inserts the default value
    under a missing key before it reads or writes; \<^verbatim>\<open>at\<close> throws \<^verbatim>\<open>std::out_of_range\<close>
    on a missing key. Nothing in the program catches that exception, so the process
    ends there: the model returns \<open>Inl OutOfRange\<close> and no state. The order in which
    a map is iterated is observable nowhere (the only iteration whose result is used
    sorts what it collected), so new keys are simply appended.
  \<^item> \<^verbatim>\<open>frozenProblems\<close> is a \<^verbatim>\<open>map<string, set<string>>\<close> that is only ever accessed with
    \<^verbatim>\<open>operator[]\<close> and \<^verbatim>\<open>clear\<close>: a missing key and a key bound to the empty set cannot
    be told apart, so it is a total function into the elements of the set in
    ascending order.
  \<^item> \<^verbatim>\<open>int\<close> is modelled by the mathematical integers. Signed overflow is undefined
    behaviour in C++; the model describes the executions in which no counter leaves
    the range of \<^verbatim>\<open>int\<close>.
  \<^item> \<^verbatim>\<open>std::string\<close> is \<open>string\<close>; \<^verbatim>\<open>operator<\<close> on it is the lexicographic order on
    bytes, which is the order of \<open>HOL-Library.List_Lexorder\<close> over \<open>HOL-Library.Char_ord\<close>.
  \<^item> Standard output is the list of the lines written.
\<close>

subsection \<open>Data\<close>

datatype Status = ACCEPTED | WRONG_ANSWER | RUNTIME_ERROR | TIME_LIMIT_EXCEED

datatype error = OutOfRange

definition stringToStatus :: "string \<Rightarrow> Status" where
  "stringToStatus statusStr =
     (if statusStr = ''Accepted'' then ACCEPTED
      else if statusStr = ''Wrong_Answer'' then WRONG_ANSWER
      else if statusStr = ''Runtime_Error'' then RUNTIME_ERROR
      else if statusStr = ''Time_Limit_Exceed'' then TIME_LIMIT_EXCEED
      else WRONG_ANSWER)"

fun statusToString :: "Status \<Rightarrow> string" where
  "statusToString ACCEPTED = ''Accepted''"
| "statusToString WRONG_ANSWER = ''Wrong_Answer''"
| "statusToString RUNTIME_ERROR = ''Runtime_Error''"
| "statusToString TIME_LIMIT_EXCEED = ''Time_Limit_Exceed''"

record Submission =
  teamName :: string
  problemName :: string
  status :: Status
  time :: int

record Team =
  name :: string
  solvedCount :: int
  penaltyTime :: int
  wrongSubmissions :: "(string \<times> int) list"
  firstAcceptTime :: "(string \<times> int) list"
  isSolved :: "(string \<times> bool) list"
  totalSubmissions :: "(string \<times> int) list"
  frozenSubmissions :: "(string \<times> int) list"

record sys =
  competitionStarted :: bool
  isFrozen :: bool
  durationTime :: int
  problemCount :: int
  problemNames :: "string list"
  teams :: "(string \<times> Team) list"
  submissions :: "Submission list"
  teamOrder :: "string list"
  frozenProblems :: "string \<Rightarrow> string list"

text \<open>The constructors \<^verbatim>\<open>Team(n)\<close> (and \<^verbatim>\<open>Team()\<close>, which is \<open>newTeam []\<close>) and
  \<^verbatim>\<open>ICPCManagementSystem()\<close>.\<close>

definition newTeam :: "string \<Rightarrow> Team" where
  "newTeam n = \<lparr>name = n, solvedCount = 0, penaltyTime = 0, wrongSubmissions = [],
     firstAcceptTime = [], isSolved = [], totalSubmissions = [], frozenSubmissions = []\<rparr>"

definition init :: sys where
  "init = \<lparr>competitionStarted = False, isFrozen = False, durationTime = 0, problemCount = 0,
     problemNames = [], teams = [], submissions = [], teamOrder = [],
     frozenProblems = (\<lambda>_. [])\<rparr>"

subsection \<open>Access to a \<^verbatim>\<open>std::map\<close>\<close>

text \<open>\<^verbatim>\<open>m.at(k)\<close>.\<close>

definition at :: "('k \<times> 'v) list \<Rightarrow> 'k \<Rightarrow> error + 'v" where
  "at m k = (case map_of m k of None \<Rightarrow> Inl OutOfRange | Some v \<Rightarrow> Inr v)"

text \<open>\<^verbatim>\<open>m[k]\<close>: \<open>touch m k d\<close> is the map after the access (the default \<open>d\<close> inserted under
  a missing key) and \<open>idx m k d\<close> the value the access yields.\<close>

definition touch :: "('k \<times> 'v) list \<Rightarrow> 'k \<Rightarrow> 'v \<Rightarrow> ('k \<times> 'v) list" where
  "touch m k d = (case map_of m k of None \<Rightarrow> AList.update k d m | Some v \<Rightarrow> m)"

definition idx :: "('k \<times> 'v) list \<Rightarrow> 'k \<Rightarrow> 'v \<Rightarrow> 'v" where
  "idx m k d = (case map_of m k of None \<Rightarrow> d | Some v \<Rightarrow> v)"

text \<open>\<^verbatim>\<open>m[k]++\<close> on a \<^verbatim>\<open>map<string, int>\<close>.\<close>

definition incr :: "('k \<times> int) list \<Rightarrow> 'k \<Rightarrow> ('k \<times> int) list" where
  "incr m k = AList.update k (idx m k 0 + 1) m"

text \<open>\<^verbatim>\<open>teams[t]\<close> where the team is only read. Every such access of the program is at a
  name taken from \<^verbatim>\<open>teamOrder\<close>, and those are keys of \<^verbatim>\<open>teams\<close> (lemma
  \<open>run_regInv\<close> below), so the insertion \<^verbatim>\<open>operator[]\<close> would do never takes place there.\<close>

definition teamAt :: "sys \<Rightarrow> string \<Rightarrow> Team" where
  "teamAt s t = idx (teams s) t (newTeam [])"

text \<open>\<^verbatim>\<open>set<string>::insert\<close> on the ascending list of the elements.\<close>

definition setInsert :: "string \<Rightarrow> string list \<Rightarrow> string list" where
  "setInsert p ps = (if p \<in> set ps then ps else insort p ps)"

subsection \<open>Methods of \<^verbatim>\<open>Team\<close>\<close>

definition getProblemPenalty :: "Team \<Rightarrow> string \<Rightarrow> error + int" where
  "getProblemPenalty T problem =
     (case at (isSolved T) problem of
        Inl e \<Rightarrow> Inl e
      | Inr solved \<Rightarrow>
          if \<not> solved then Inr 0
          else (case at (wrongSubmissions T) problem of
                  Inl e \<Rightarrow> Inl e
                | Inr w \<Rightarrow> (case at (firstAcceptTime T) problem of
                             Inl e \<Rightarrow> Inl e
                           | Inr f \<Rightarrow> Inr (20 * w + f))))"

text \<open>The loop of \<^verbatim>\<open>getSolveTimes\<close> over the entries of \<^verbatim>\<open>isSolved\<close>.\<close>

fun collectTimes :: "(string \<times> int) list \<Rightarrow> (string \<times> bool) list \<Rightarrow> error + int list" where
  "collectTimes fat [] = Inr []"
| "collectTimes fat ((problem, solved) # rest) =
     (if solved then
        (case at fat problem of
           Inl e \<Rightarrow> Inl e
         | Inr v \<Rightarrow> (case collectTimes fat rest of Inl e \<Rightarrow> Inl e | Inr vs \<Rightarrow> Inr (v # vs)))
      else collectTimes fat rest)"

text \<open>\<^verbatim>\<open>sort(times.rbegin(), times.rend())\<close> sorts the reversed view ascending, which
  leaves the vector descending.\<close>

definition getSolveTimes :: "Team \<Rightarrow> error + int list" where
  "getSolveTimes T =
     (case collectTimes (firstAcceptTime T) (isSolved T) of
        Inl e \<Rightarrow> Inl e
      | Inr ts \<Rightarrow> Inr (rev (sort ts)))"

subsection \<open>Registration and start\<close>

definition addTeam :: "string \<Rightarrow> sys \<Rightarrow> sys \<times> string list" where
  "addTeam n s =
     (if competitionStarted s then (s, [''[Error]Add failed: competition has started.''])
      else if map_of (teams s) n \<noteq> None then (s, [''[Error]Add failed: duplicated team name.''])
      else (s\<lparr>teams := AList.update n (newTeam n) (teams s), teamOrder := teamOrder s @ [n]\<rparr>,
            [''[Info]Add successfully.'']))"

text \<open>\<^verbatim>\<open>string(1, 'A' + i)\<close>: the sum is an \<^verbatim>\<open>int\<close>, narrowed to one byte.\<close>

definition genProblemNames :: "int \<Rightarrow> string list" where
  "genProblemNames problemCnt = map (\<lambda>i. [char_of (65 + i)]) [0..<nat problemCnt]"

definition initProblem :: "string \<Rightarrow> Team \<Rightarrow> Team" where
  "initProblem problem T =
     T\<lparr>wrongSubmissions := AList.update problem 0 (wrongSubmissions T),
       firstAcceptTime := AList.update problem 0 (firstAcceptTime T),
       isSolved := AList.update problem False (isSolved T),
       totalSubmissions := AList.update problem 0 (totalSubmissions T),
       frozenSubmissions := AList.update problem 0 (frozenSubmissions T)\<rparr>"

definition startCompetition :: "int \<Rightarrow> int \<Rightarrow> sys \<Rightarrow> sys \<times> string list" where
  "startCompetition duration problemCnt s =
     (if competitionStarted s then (s, [''[Error]Start failed: competition has started.''])
      else
        (let names = problemNames s @ genProblemNames problemCnt
         in (s\<lparr>durationTime := duration, problemCount := problemCnt, problemNames := names,
               teams := map (\<lambda>(n, T). (n, fold initProblem names T)) (teams s),
               competitionStarted := True\<rparr>,
             [''[Info]Competition starts.''])))"

subsection \<open>Submissions\<close>

text \<open>
  The four statements that record a first acceptance at time \<open>tm\<close>. They stand, word
  for word the same, in \<^verbatim>\<open>submitProblem\<close> and in \<^verbatim>\<open>scrollScoreboard\<close>:
  \<^verbatim>\<open>isSolved[p] = true; firstAcceptTime[p] = tm; solvedCount++;
  penaltyTime += getProblemPenalty(p);\<close>
\<close>

definition markSolved :: "Team \<Rightarrow> string \<Rightarrow> int \<Rightarrow> error + Team" where
  "markSolved T p tm =
     (let T1 = T\<lparr>isSolved := AList.update p True (isSolved T),
                firstAcceptTime := AList.update p tm (firstAcceptTime T),
                solvedCount := solvedCount T + 1\<rparr>
      in case getProblemPenalty T1 p of
           Inl e \<Rightarrow> Inl e
         | Inr pen \<Rightarrow> Inr (T1\<lparr>penaltyTime := penaltyTime T1 + pen\<rparr>))"

text \<open>
  \<^verbatim>\<open>submitProblem\<close>. The reference \<^verbatim>\<open>team\<close> is \<^verbatim>\<open>teams[teamName]\<close>, which creates a
  \<^verbatim>\<open>Team()\<close> for an unknown name. \<^verbatim>\<open>team.isSolved[problemName]\<close> is evaluated on every
  path (in the first condition when the board is frozen, in the inner condition
  otherwise), so its insertion of \<^verbatim>\<open>false\<close> under a missing key is done once, up front.
\<close>

definition submitProblem :: "string \<Rightarrow> string \<Rightarrow> string \<Rightarrow> int \<Rightarrow> sys \<Rightarrow> error + sys" where
  "submitProblem p t statusStr tm s =
     (let st = stringToStatus statusStr;
          subs = submissions s @ [\<lparr>teamName = t, problemName = p, status = st, time = tm\<rparr>];
          T0 = teamAt s t;
          T1 = T0\<lparr>totalSubmissions := incr (totalSubmissions T0) p\<rparr>;
          T2 = T1\<lparr>isSolved := touch (isSolved T1) p False\<rparr>;
          solved = idx (isSolved T1) p False
      in if isFrozen s \<and> \<not> solved then
           (let T3 = T2\<lparr>frozenSubmissions := incr (frozenSubmissions T2) p\<rparr>
            in Inr (s\<lparr>submissions := subs, teams := AList.update t T3 (teams s),
                     frozenProblems :=
                       (if st = ACCEPTED
                        then (frozenProblems s)(t := setInsert p (frozenProblems s t))
                        else frozenProblems s)\<rparr>))
         else if \<not> solved then
           (if st = ACCEPTED then
              (case markSolved T2 p tm of
                 Inl e \<Rightarrow> Inl e
               | Inr T3 \<Rightarrow> Inr (s\<lparr>submissions := subs, teams := AList.update t T3 (teams s)\<rparr>))
            else
              Inr (s\<lparr>submissions := subs,
                    teams := AList.update t
                               (T2\<lparr>wrongSubmissions := incr (wrongSubmissions T2) p\<rparr>) (teams s)\<rparr>))
         else Inr (s\<lparr>submissions := subs, teams := AList.update t T2 (teams s)\<rparr>))"

subsection \<open>Ranking\<close>

text \<open>The loop over the common prefix of the two vectors of solve times: the answer
  at the first position where they differ, if there is one.\<close>

fun firstDiff :: "int list \<Rightarrow> int list \<Rightarrow> bool option" where
  "firstDiff (a # as) (b # bs) = (if a \<noteq> b then Some (a < b) else firstDiff as bs)"
| "firstDiff _ _ = None"

text \<open>The comparator passed to \<^verbatim>\<open>std::sort\<close>.\<close>

definition rankBefore :: "sys \<Rightarrow> string \<Rightarrow> string \<Rightarrow> error + bool" where
  "rankBefore s a b =
     (let teamA = teamAt s a; teamB = teamAt s b
      in if solvedCount teamA \<noteq> solvedCount teamB
         then Inr (solvedCount teamA > solvedCount teamB)
         else if penaltyTime teamA \<noteq> penaltyTime teamB
         then Inr (penaltyTime teamA < penaltyTime teamB)
         else (case getSolveTimes teamA of
                 Inl e \<Rightarrow> Inl e
               | Inr timesA \<Rightarrow>
                   (case getSolveTimes teamB of
                      Inl e \<Rightarrow> Inl e
                    | Inr timesB \<Rightarrow>
                        (case firstDiff timesA timesB of
                           Some r \<Rightarrow> Inr r
                         | None \<Rightarrow> Inr (a < b)))))"

text \<open>
  \<^verbatim>\<open>std::sort\<close> leaves the sequence of its comparisons open. The model fixes insertion
  sort, passing an exception of the comparator on. Where the comparator is a strict
  total order on the elements (lemma \<open>updateRankings_key\<close>: at every state
  the program reaches) the sorted permutation is unique, so every implementation of
  \<^verbatim>\<open>std::sort\<close> returns what this one does.
\<close>

fun insertBy :: "('a \<Rightarrow> 'a \<Rightarrow> error + bool) \<Rightarrow> 'a \<Rightarrow> 'a list \<Rightarrow> error + 'a list" where
  "insertBy lt x [] = Inr [x]"
| "insertBy lt x (y # ys) =
     (case lt x y of
        Inl e \<Rightarrow> Inl e
      | Inr r \<Rightarrow>
          if r then Inr (x # y # ys)
          else (case insertBy lt x ys of Inl e \<Rightarrow> Inl e | Inr zs \<Rightarrow> Inr (y # zs)))"

fun std_sort :: "('a \<Rightarrow> 'a \<Rightarrow> error + bool) \<Rightarrow> 'a list \<Rightarrow> error + 'a list" where
  "std_sort lt [] = Inr []"
| "std_sort lt (x # xs) =
     (case std_sort lt xs of Inl e \<Rightarrow> Inl e | Inr ys \<Rightarrow> insertBy lt x ys)"

definition updateRankings :: "sys \<Rightarrow> error + sys" where
  "updateRankings s =
     (case std_sort (rankBefore s) (teamOrder s) of
        Inl e \<Rightarrow> Inl e
      | Inr order \<Rightarrow> Inr (s\<lparr>teamOrder := order\<rparr>))"

subsection \<open>Printing\<close>

text \<open>\<^verbatim>\<open>operator<<\<close> on a \<^verbatim>\<open>size_t\<close> and on an \<^verbatim>\<open>int\<close>: decimal digits.\<close>

fun showNat :: "nat \<Rightarrow> string" where
  "showNat n = (if n < 10 then [char_of (48 + n)]
                else showNat (n div 10) @ [char_of (48 + n mod 10)])"

declare showNat.simps [simp del]

definition showInt :: "int \<Rightarrow> string" where
  "showInt i = (if i < 0 then CHR ''-'' # showNat (nat (- i)) else showNat (nat i))"

text \<open>One cell of a row of \<^verbatim>\<open>printScoreboard\<close>; \<open>fz\<close> is \<^verbatim>\<open>frozenProblems[teamName]\<close>.\<close>

definition cell :: "Team \<Rightarrow> string list \<Rightarrow> string \<Rightarrow> error + string" where
  "cell T fz problem =
     (case at (isSolved T) problem of
        Inl e \<Rightarrow> Inl e
      | Inr solved \<Rightarrow>
          if solved then
            (case at (wrongSubmissions T) problem of
               Inl e \<Rightarrow> Inl e
             | Inr wrongBefore \<Rightarrow>
                 Inr (if wrongBefore = 0 then ''+'' else ''+'' @ showInt wrongBefore))
          else if problem \<in> set fz then
            (case at (wrongSubmissions T) problem of
               Inl e \<Rightarrow> Inl e
             | Inr wrongBefore \<Rightarrow>
                 (case at (frozenSubmissions T) problem of
                    Inl e \<Rightarrow> Inl e
                  | Inr frozenCount \<Rightarrow>
                      Inr (if wrongBefore = 0 then ''0/'' @ showInt frozenCount
                           else ''-'' @ showInt wrongBefore @ ''/'' @ showInt frozenCount)))
          else
            (case at (wrongSubmissions T) problem of
               Inl e \<Rightarrow> Inl e
             | Inr wrongCount \<Rightarrow>
                 Inr (if wrongCount = 0 then ''.'' else ''-'' @ showInt wrongCount)))"

fun cells :: "Team \<Rightarrow> string list \<Rightarrow> string list \<Rightarrow> error + string" where
  "cells T fz [] = Inr []"
| "cells T fz (problem # rest) =
     (case cell T fz problem of
        Inl e \<Rightarrow> Inl e
      | Inr c \<Rightarrow> (case cells T fz rest of Inl e \<Rightarrow> Inl e | Inr r \<Rightarrow> Inr ('' '' @ c @ r)))"

definition rowHead :: "sys \<Rightarrow> nat \<Rightarrow> string \<Rightarrow> string" where
  "rowHead s i t = t @ '' '' @ showNat (i + 1) @ '' '' @ showInt (solvedCount (teamAt s t))
                     @ '' '' @ showInt (penaltyTime (teamAt s t))"

fun printRows :: "sys \<Rightarrow> nat \<Rightarrow> string list \<Rightarrow> error + string list" where
  "printRows s i [] = Inr []"
| "printRows s i (t # rest) =
     (case cells (teamAt s t) (frozenProblems s t) (problemNames s) of
        Inl e \<Rightarrow> Inl e
      | Inr cs \<Rightarrow>
          (case printRows s (i + 1) rest of
             Inl e \<Rightarrow> Inl e
           | Inr ls \<Rightarrow> Inr ((rowHead s i t @ cs) # ls)))"

definition printScoreboard :: "sys \<Rightarrow> error + string list" where
  "printScoreboard s = printRows s 0 (teamOrder s)"

subsection \<open>Flush and freeze\<close>

definition flushScoreboard :: "sys \<Rightarrow> error + (sys \<times> string list)" where
  "flushScoreboard s =
     (case updateRankings s of
        Inl e \<Rightarrow> Inl e
      | Inr s1 \<Rightarrow>
          (case printScoreboard s1 of
             Inl e \<Rightarrow> Inl e
           | Inr board \<Rightarrow> Inr (s1, ''[Info]Flush scoreboard.'' # board)))"

definition freezeScoreboard :: "sys \<Rightarrow> sys \<times> string list" where
  "freezeScoreboard s =
     (if isFrozen s then (s, [''[Error]Freeze failed: scoreboard has been frozen.''])
      else (s\<lparr>isFrozen := True\<rparr>, [''[Info]Freeze scoreboard.'']))"

subsection \<open>Scroll\<close>

text \<open>The selection at the head of the loop body. \<^verbatim>\<open>problemToUnfreeze\<close> starts at
  \<^verbatim>\<open>*begin()\<close> and is then lowered over all elements of the set.\<close>

definition minProblem :: "string list \<Rightarrow> string" where
  "minProblem ps = fold (\<lambda>problem cur. if problem < cur then problem else cur) ps (hd ps)"

definition findUnfreeze :: "sys \<Rightarrow> string \<times> string" where
  "findUnfreeze s =
     (case find (\<lambda>t. frozenProblems s t \<noteq> []) (rev (teamOrder s)) of
        None \<Rightarrow> ([], [])
      | Some t \<Rightarrow> (t, minProblem (frozenProblems s t)))"

text \<open>The search of the whole log for \<^verbatim>\<open>firstACTime\<close>, which starts at \<open>-1\<close>.\<close>

definition firstACTimeOf :: "Submission list \<Rightarrow> string \<Rightarrow> string \<Rightarrow> int" where
  "firstACTimeOf subs t p =
     fold (\<lambda>sub firstACTime.
             if teamName sub = t \<and> problemName sub = p \<and> status sub = ACCEPTED \<and> time sub > 0
             then (if firstACTime = - 1 \<or> time sub < firstACTime then time sub else firstACTime)
             else firstACTime)
          subs (- 1)"

text \<open>The search of \<^verbatim>\<open>oldOrder\<close> for \<^verbatim>\<open>replacedTeam\<close>: \<open>prev\<close> is the element before the
  current one, if there is one.\<close>

fun replacedTeamIn :: "string option \<Rightarrow> string list \<Rightarrow> string \<Rightarrow> string" where
  "replacedTeamIn prev [] t = []"
| "replacedTeamIn prev (x # xs) t =
     (if x = t then (case prev of None \<Rightarrow> [] | Some y \<Rightarrow> y)
      else replacedTeamIn (Some x) xs t)"

definition noteChange ::
  "string list \<Rightarrow> string list \<Rightarrow> string \<Rightarrow> (string \<times> string) list \<Rightarrow> (string \<times> string) list" where
  "noteChange oldOrder newOrder t rankingChanges =
     (if oldOrder \<noteq> newOrder then
        (let replacedTeam = replacedTeamIn None oldOrder t
         in if replacedTeam \<noteq> [] then rankingChanges @ [(t, replacedTeam)] else rankingChanges)
      else rankingChanges)"

text \<open>The last statement of the loop body, \<^verbatim>\<open>team.frozenSubmissions[p] = 0\<close>.\<close>

definition clearFrozenCount :: "string \<Rightarrow> string \<Rightarrow> sys \<Rightarrow> sys" where
  "clearFrozenCount t p s =
     s\<lparr>teams := AList.update t
         ((teamAt s t)\<lparr>frozenSubmissions := AList.update p 0 (frozenSubmissions (teamAt s t))\<rparr>)
         (teams s)\<rparr>"

text \<open>One pass of the loop body for the selected team \<open>t\<close> and problem \<open>p\<close>;
  \<open>rankingChanges\<close> is threaded through.\<close>

definition revealStep ::
  "sys \<Rightarrow> string \<Rightarrow> string \<Rightarrow> (string \<times> string) list \<Rightarrow> error + (sys \<times> (string \<times> string) list)" where
  "revealStep s t p rankingChanges =
     (let T0 = teamAt s t;
          T1 = T0\<lparr>frozenSubmissions := touch (frozenSubmissions T0) p 0\<rparr>;
          s1 = s\<lparr>frozenProblems := (frozenProblems s)(t := removeAll p (frozenProblems s t)),
                teams := AList.update t T1 (teams s)\<rparr>
      in if idx (frozenSubmissions T0) p 0 > 0 then
           (let firstACTime = firstACTimeOf (submissions s) t p
            in if firstACTime \<noteq> - 1 then
                 (case markSolved T1 p firstACTime of
                    Inl e \<Rightarrow> Inl e
                  | Inr T2 \<Rightarrow>
                      (case updateRankings (s1\<lparr>teams := AList.update t T2 (teams s)\<rparr>) of
                         Inl e \<Rightarrow> Inl e
                       | Inr s2 \<Rightarrow>
                           Inr (clearFrozenCount t p s2,
                                noteChange (teamOrder s) (teamOrder s2) t rankingChanges)))
               else Inr (clearFrozenCount t p s1, rankingChanges))
         else Inr (clearFrozenCount t p s1, rankingChanges))"

lemma mset_insertBy: "insertBy lt x xs = Inr ys \<Longrightarrow> mset ys = add_mset x (mset xs)"
  by (induction xs arbitrary: ys) (auto split: sum.splits if_splits)

lemma mset_std_sort: "std_sort lt xs = Inr ys \<Longrightarrow> mset ys = mset xs"
  by (induction xs arbitrary: ys) (auto split: sum.splits dest: mset_insertBy)

lemma updateRankings_fields:
  "updateRankings s = Inr s' \<Longrightarrow>
     mset (teamOrder s') = mset (teamOrder s) \<and> teams s' = teams s
     \<and> frozenProblems s' = frozenProblems s \<and> submissions s' = submissions s
     \<and> isFrozen s' = isFrozen s \<and> competitionStarted s' = competitionStarted s
     \<and> problemNames s' = problemNames s \<and> durationTime s' = durationTime s
     \<and> problemCount s' = problemCount s"
  by (auto simp: updateRankings_def split: sum.splits dest: mset_std_sort)

lemma revealStep_frozenProblems:
  "revealStep s t p rc = Inr (s', rc') \<Longrightarrow>
     frozenProblems s' = (frozenProblems s)(t := removeAll p (frozenProblems s t))
     \<and> mset (teamOrder s') = mset (teamOrder s)"
  by (auto simp: revealStep_def clearFrozenCount_def Let_def
           split: if_splits sum.splits dest!: updateRankings_fields)

lemma fold_min_mem:
  "fold (\<lambda>problem cur. if problem < cur then problem else cur) ps c \<in> insert c (set ps)"
  by (induction ps arbitrary: c) (auto split: if_splits)

lemma minProblem_mem: "ps \<noteq> [] \<Longrightarrow> minProblem ps \<in> set ps"
  using fold_min_mem [of ps "hd ps"] by (auto simp: minProblem_def)

lemma find_SomeD: "find P xs = Some x \<Longrightarrow> x \<in> set xs \<and> P x"
  by (induction xs) (auto split: if_splits)

lemma findUnfreeze_mem:
  assumes "findUnfreeze s = (t, p)" and "t \<noteq> []"
  shows "t \<in> set (teamOrder s) \<and> p \<in> set (frozenProblems s t)"
proof (cases "find (\<lambda>t. frozenProblems s t \<noteq> []) (rev (teamOrder s))")
  case None
  with assms show ?thesis by (simp add: findUnfreeze_def)
next
  case (Some u)
  with assms have u: "u = t" and p: "p = minProblem (frozenProblems s t)"
    by (auto simp: findUnfreeze_def)
  from Some have "u \<in> set (rev (teamOrder s)) \<and> frozenProblems s u \<noteq> []"
    by (rule find_SomeD)
  with u p show ?thesis by (auto intro: minProblem_mem)
qed

text \<open>The number of frozen problems the teams of the ranking still hold: what the loop
  of \<^verbatim>\<open>scrollScoreboard\<close> uses up.\<close>

definition pending :: "sys \<Rightarrow> nat" where
  "pending s = sum_mset (image_mset (\<lambda>t. length (frozenProblems s t)) (mset (teamOrder s)))"

lemma sum_mset_less:
  fixes f g :: "'a \<Rightarrow> nat"
  assumes "\<And>x. f x \<le> g x" and "a \<in># M" and "f a < g a"
  shows "sum_mset (image_mset f M) < sum_mset (image_mset g M)"
proof -
  from assms(2) obtain N where M: "M = add_mset a N" by (meson multi_member_split)
  have "sum_mset (image_mset f N) \<le> sum_mset (image_mset g N)"
    by (induction N) (auto intro: add_mono assms(1))
  with assms(3) show ?thesis unfolding M by simp
qed

lemma revealStep_pending:
  assumes "findUnfreeze s = (t, p)" and "t \<noteq> []" and "revealStep s t p rc = Inr (s', rc')"
  shows "pending s' < pending s"
proof -
  from findUnfreeze_mem [OF assms(1,2)]
  have t: "t \<in> set (teamOrder s)" and p: "p \<in> set (frozenProblems s t)" by auto
  from revealStep_frozenProblems [OF assms(3)]
  have fp: "frozenProblems s' = (frozenProblems s)(t := removeAll p (frozenProblems s t))"
    and ord: "mset (teamOrder s') = mset (teamOrder s)" by auto
  have lt: "length (removeAll p (frozenProblems s t)) < length (frozenProblems s t)"
    using p by (simp add: length_removeAll_less)
  have le: "\<And>x. length (frozenProblems s' x) \<le> length (frozenProblems s x)"
    using lt by (simp add: fp)
  show ?thesis
    unfolding pending_def ord
    by (rule sum_mset_less [where a = t]) (use t lt le in \<open>auto simp: fp\<close>)
qed

text \<open>The loop \<^verbatim>\<open>while (true)\<close> of \<^verbatim>\<open>scrollScoreboard\<close>: it is left when no team was
  selected, that is, when \<^verbatim>\<open>teamToUnfreeze\<close> is still the empty string.\<close>

function scrollLoop ::
  "sys \<Rightarrow> (string \<times> string) list \<Rightarrow> error + (sys \<times> (string \<times> string) list)" where
  "scrollLoop s rankingChanges =
     (if fst (findUnfreeze s) = [] then Inr (s, rankingChanges)
      else (case revealStep s (fst (findUnfreeze s)) (snd (findUnfreeze s)) rankingChanges of
              Inl e \<Rightarrow> Inl e
            | Inr (s', rankingChanges') \<Rightarrow> scrollLoop s' rankingChanges'))"
  by pat_completeness auto
termination
proof (relation "measure (\<lambda>(s, rc). pending s)")
  show "wf (measure (\<lambda>(s, rc). pending s))" by simp
next
  fix s :: sys and rankingChanges x2 s' rankingChanges'
  assume sel: "fst (findUnfreeze s) \<noteq> []"
    and "revealStep s (fst (findUnfreeze s)) (snd (findUnfreeze s)) rankingChanges = Inr x2"
    and "(s', rankingChanges') = x2"
  then have "revealStep s (fst (findUnfreeze s)) (snd (findUnfreeze s)) rankingChanges
               = Inr (s', rankingChanges')"
    by simp
  from revealStep_pending [OF _ sel this] have "pending s' < pending s" by simp
  then show "((s', rankingChanges'), (s, rankingChanges)) \<in> measure (\<lambda>(s, rc). pending s)"
    by simp
qed

declare scrollLoop.simps [simp del]

definition changeLine :: "sys \<Rightarrow> string \<times> string \<Rightarrow> string" where
  "changeLine s = (\<lambda>(team1, team2).
     team1 @ '' '' @ team2 @ '' '' @ showInt (solvedCount (teamAt s team1)) @ '' ''
       @ showInt (penaltyTime (teamAt s team1)))"

definition scrollScoreboard :: "sys \<Rightarrow> error + (sys \<times> string list)" where
  "scrollScoreboard s =
     (if \<not> isFrozen s then Inr (s, [''[Error]Scroll failed: scoreboard has not been frozen.''])
      else
        (case updateRankings s of
           Inl e \<Rightarrow> Inl e
         | Inr s1 \<Rightarrow>
             (case printScoreboard s1 of
                Inl e \<Rightarrow> Inl e
              | Inr board \<Rightarrow>
                  (case scrollLoop s1 [] of
                     Inl e \<Rightarrow> Inl e
                   | Inr (s2, rankingChanges) \<Rightarrow>
                       (case printScoreboard s2 of
                          Inl e \<Rightarrow> Inl e
                        | Inr final \<Rightarrow>
                            Inr (s2\<lparr>isFrozen := False, frozenProblems := (\<lambda>_. [])\<rparr>,
                                 [''[Info]Scroll scoreboard.''] @ board
                                   @ map (changeLine s2) rankingChanges @ final))))))"

subsection \<open>Queries\<close>

text \<open>The loop of \<^verbatim>\<open>queryRanking\<close> over \<^verbatim>\<open>teamOrder\<close>; it prints nothing when the name
  is not in the ranking.\<close>

fun rankingLine :: "int \<Rightarrow> string list \<Rightarrow> string \<Rightarrow> string list" where
  "rankingLine ranking [] t = []"
| "rankingLine ranking (n # ns) t =
     (if n = t then [t @ '' NOW AT RANKING '' @ showInt ranking]
      else rankingLine (ranking + 1) ns t)"

definition queryRanking :: "string \<Rightarrow> sys \<Rightarrow> string list" where
  "queryRanking t s =
     (if map_of (teams s) t = None then [''[Error]Query ranking failed: cannot find the team.'']
      else [''[Info]Complete query ranking.'']
           @ (if isFrozen s
              then [''[Warning]Scoreboard is frozen. The ranking may be inaccurate until it were scrolled.'']
              else [])
           @ rankingLine 1 (teamOrder s) t)"

definition lastMatch :: "string \<Rightarrow> string \<Rightarrow> string \<Rightarrow> sys \<Rightarrow> Submission option" where
  "lastMatch t p statusStr s =
     (let targetStatus = (if statusStr = ''ALL'' then ACCEPTED else stringToStatus statusStr);
          allProblems = (p = ''ALL'');
          allStatuses = (statusStr = ''ALL'')
      in find (\<lambda>sub. teamName sub = t \<and> (allProblems \<or> problemName sub = p)
                       \<and> (allStatuses \<or> status sub = targetStatus))
              (rev (submissions s)))"

definition querySubmission :: "string \<Rightarrow> string \<Rightarrow> string \<Rightarrow> sys \<Rightarrow> string list" where
  "querySubmission t p statusStr s =
     (if map_of (teams s) t = None
      then [''[Error]Query submission failed: cannot find the team.'']
      else [''[Info]Complete query submission.'']
           @ (case lastMatch t p statusStr s of
                None \<Rightarrow> [''Cannot find any submission.'']
              | Some sub \<Rightarrow>
                  [teamName sub @ '' '' @ problemName sub @ '' '' @ statusToString (status sub)
                     @ '' '' @ showInt (time sub)]))"

subsection \<open>The command loop of \<^verbatim>\<open>main\<close>\<close>

text \<open>A command carries the arguments with which \<^verbatim>\<open>main\<close> calls the method of the
  system; how \<^verbatim>\<open>main\<close> reads a line and splits it into words is not modelled.\<close>

datatype cmd =
    ADDTEAM string
  | START int int
  | SUBMIT string string string int
  | FLUSH
  | FREEZE
  | SCROLL
  | QUERY_RANKING string
  | QUERY_SUBMISSION string string string
  | END

fun step :: "cmd \<Rightarrow> sys \<Rightarrow> error + (sys \<times> string list)" where
  "step (ADDTEAM n) s = Inr (addTeam n s)"
| "step (START duration problemCnt) s = Inr (startCompetition duration problemCnt s)"
| "step (SUBMIT p t statusStr tm) s =
     (case submitProblem p t statusStr tm s of Inl e \<Rightarrow> Inl e | Inr s' \<Rightarrow> Inr (s', []))"
| "step FLUSH s = flushScoreboard s"
| "step FREEZE s = Inr (freezeScoreboard s)"
| "step SCROLL s = scrollScoreboard s"
| "step (QUERY_RANKING t) s = Inr (s, queryRanking t s)"
| "step (QUERY_SUBMISSION t p statusStr) s = Inr (s, querySubmission t p statusStr s)"
| "step END s = Inr (s, [''[Info]Competition ends.''])"

text \<open>\<^verbatim>\<open>END\<close> leaves the loop; the lines after it are not read.\<close>

fun run :: "sys \<Rightarrow> cmd list \<Rightarrow> error + (sys \<times> string list)" where
  "run s [] = Inr (s, [])"
| "run s (c # cs) =
     (case step c s of
        Inl e \<Rightarrow> Inl e
      | Inr (s', out) \<Rightarrow>
          if c = END then Inr (s', out)
          else (case run s' cs of
                  Inl e \<Rightarrow> Inl e
                | Inr (s'', out') \<Rightarrow> Inr (s'', out @ out')))"

text \<open>The last entry of a log that satisfies \<open>P\<close>, found from the front: the
  "newest matching submission" of the query.\<close>

fun newest :: "('a \<Rightarrow> bool) \<Rightarrow> 'a list \<Rightarrow> 'a option" where
  "newest P [] = None"
| "newest P (x # xs) =
     (case newest P xs of Some y \<Rightarrow> Some y | None \<Rightarrow> if P x then Some x else None)"

text \<open>Two boards used as concrete inputs: one team and two problems after \<^verbatim>\<open>START\<close>,
  and the same board after \<^verbatim>\<open>FREEZE\<close>.\<close>

definition startedBoard :: sys where
  "startedBoard = fst (startCompetition 300 2 (fst (addTeam ''t'' init)))"

definition frozenBoard :: sys where
  "frozenBoard = fst (freezeScoreboard startedBoard)"

text \<open>The board after \<^verbatim>\<open>SUBMIT A BY t WITH Wrong AT 7\<close>, whose status word is none of
  the four names.\<close>

definition wrongBoard :: sys where
  "wrongBoard = projr (submitProblem ''A'' ''t'' ''Wrong'' 7 startedBoard)"

subsection \<open>Invariants and auxiliary notions\<close>

definition solvedProblems :: "Team \<Rightarrow> string list" where
  "solvedProblems T = map fst (filter snd (isSolved T))"

definition problemCost :: "Team \<Rightarrow> string \<Rightarrow> int" where
  "problemCost T p = 20 * idx (wrongSubmissions T) p 0 + idx (firstAcceptTime T) p 0"

definition wrongOK :: "Team \<Rightarrow> bool" where
  "wrongOK T \<longleftrightarrow> (\<forall>p w. map_of (wrongSubmissions T) p = Some w \<longrightarrow> 0 \<le> w)"

definition teamOK :: "Team \<Rightarrow> bool" where
  "teamOK T \<longleftrightarrow>
     distinct (map fst (isSolved T))
     \<and> (\<forall>p \<in> set (solvedProblems T).
           map_of (firstAcceptTime T) p \<noteq> None \<and> map_of (wrongSubmissions T) p \<noteq> None)
     \<and> solvedCount T = int (length (solvedProblems T))
     \<and> penaltyTime T = sum_list (map (problemCost T) (solvedProblems T))"

definition allTeams :: "(Team \<Rightarrow> bool) \<Rightarrow> sys \<Rightarrow> bool" where
  "allTeams P s \<longleftrightarrow> (\<forall>t T. map_of (teams s) t = Some T \<longrightarrow> P T)"

definition submitTeam :: "bool \<Rightarrow> string \<Rightarrow> Status \<Rightarrow> int \<Rightarrow> Team \<Rightarrow> error + Team" where
  "submitTeam frozen p st tm T0 =
     (let T1 = T0\<lparr>totalSubmissions := incr (totalSubmissions T0) p\<rparr>;
          T2 = T1\<lparr>isSolved := touch (isSolved T1) p False\<rparr>;
          solved = idx (isSolved T1) p False
      in if frozen \<and> \<not> solved then Inr (T2\<lparr>frozenSubmissions := incr (frozenSubmissions T2) p\<rparr>)
         else if \<not> solved then
           (if st = ACCEPTED then markSolved T2 p tm
            else Inr (T2\<lparr>wrongSubmissions := incr (wrongSubmissions T2) p\<rparr>))
         else Inr T2)"

definition revealTeam :: "Submission list \<Rightarrow> string \<Rightarrow> string \<Rightarrow> Team \<Rightarrow> error + Team \<times> bool" where
  "revealTeam subs t p T0 =
     (let T1 = T0\<lparr>frozenSubmissions := touch (frozenSubmissions T0) p 0\<rparr>
      in if idx (frozenSubmissions T0) p 0 > 0 \<and> firstACTimeOf subs t p \<noteq> - 1
         then (case markSolved T1 p (firstACTimeOf subs t p) of
                 Inl e \<Rightarrow> Inl e | Inr T2 \<Rightarrow> Inr (T2, True))
         else Inr (T1, False))"

definition teamLe :: "Team \<Rightarrow> Team \<Rightarrow> bool" where
  "teamLe T T' \<longleftrightarrow>
     solvedCount T \<le> solvedCount T' \<and> penaltyTime T \<le> penaltyTime T'
     \<and> (\<forall>p. map_of (isSolved T) p = Some True \<longrightarrow> map_of (isSolved T') p = Some True)"

definition touched :: "Team \<Rightarrow> string \<Rightarrow> Team" where
  "touched T p = T\<lparr>totalSubmissions := incr (totalSubmissions T) p,
                   isSolved := touch (isSolved T) p False\<rparr>"

definition hasSlots :: "Team \<Rightarrow> string \<Rightarrow> bool" where
  "hasSlots T p \<longleftrightarrow> map_of (isSolved T) p \<noteq> None \<and> map_of (wrongSubmissions T) p \<noteq> None
     \<and> map_of (frozenSubmissions T) p \<noteq> None"

definition fresh :: "Team \<Rightarrow> bool" where
  "fresh T \<longleftrightarrow> isSolved T = [] \<and> wrongSubmissions T = []"

definition regInv :: "sys \<Rightarrow> bool" where
  "regInv s \<longleftrightarrow> distinct (teamOrder s) \<and> set (teamOrder s) \<subseteq> fst ` set (teams s)"

definition frozenOK :: "sys \<Rightarrow> bool" where
  "frozenOK s \<longleftrightarrow>
     (\<forall>t p. p \<in> set (frozenProblems s t) \<longrightarrow> map_of (isSolved (teamAt s t)) p \<noteq> Some True)
     \<and> (\<not> isFrozen s \<longrightarrow> frozenProblems s = (\<lambda>_. []))"

definition startOK :: "sys \<Rightarrow> bool" where
  "startOK s \<longleftrightarrow>
     (\<not> competitionStarted s \<longrightarrow>
        allTeams fresh s \<and> problemNames s = [] \<and> frozenProblems s = (\<lambda>_. []))"

definition slotsOK :: "sys \<Rightarrow> bool" where
  "slotsOK s \<longleftrightarrow> (\<forall>t \<in> set (teamOrder s). \<forall>p \<in> set (problemNames s). hasSlots (teamAt s t) p)"

definition boardInv :: "sys \<Rightarrow> bool" where
  "boardInv s \<longleftrightarrow> allTeams teamOK s \<and> frozenOK s \<and> startOK s \<and> slotsOK s"

text \<open>The order of a contest: submissions are made only once it has started.\<close>

fun protocol :: "bool \<Rightarrow> cmd list \<Rightarrow> bool" where
  "protocol started [] = True"
| "protocol started (SUBMIT p t statusStr tm # cs) = (started \<and> protocol started cs)"
| "protocol started (START d k # cs) = protocol True cs"
| "protocol started (END # cs) = True"
| "protocol started (c # cs) = protocol started cs"

definition teamsLe :: "sys \<Rightarrow> sys \<Rightarrow> bool" where
  "teamsLe s s' \<longleftrightarrow>
     (\<forall>t T. map_of (teams s) t = Some T \<longrightarrow>
        (\<exists>T'. map_of (teams s') t = Some T' \<and> teamLe T T'))"

definition sampleCmds :: "cmd list" where
  "sampleCmds = [SUBMIT ''A'' ''t'' ''Wrong_Answer'' 3, SUBMIT ''A'' ''t'' ''Accepted'' 100, FREEZE,
     SUBMIT ''B'' ''t'' ''Accepted'' 150, QUERY_RANKING ''t'', SCROLL, FLUSH]"

definition sampleBoard :: sys where
  "sampleBoard = fst (projr (run startedBoard sampleCmds))"

text \<open>The solve times of a team as \<^verbatim>\<open>getSolveTimes\<close> returns them when it does not fail, and
  the sort key of a team name: the ranking is ascending in this key, compared
  component by component from the left.\<close>

definition solveTimes :: "Team \<Rightarrow> int list" where
  "solveTimes T = rev (sort (map (\<lambda>p. idx (firstAcceptTime T) p 0) (solvedProblems T)))"

definition rankKey :: "sys \<Rightarrow> string \<Rightarrow> int \<times> int \<times> int list \<times> string" where
  "rankKey s a =
     (- solvedCount (teamAt s a), penaltyTime (teamAt s a), solveTimes (teamAt s a), a)"





text \<open>The ranking is in order: what holds of \<^verbatim>\<open>teamOrder\<close> between the reveal steps of a
  scroll.\<close>

definition ranked :: "sys \<Rightarrow> bool" where
  "ranked s \<longleftrightarrow> sorted (map (rankKey s) (teamOrder s))"









text \<open>The text of a cell in the words of the scoreboard's description: solved (\<^verbatim>\<open>+\<close>, with
  the wrong count if it is positive), frozen (the wrong count before the freeze, with
  \<^verbatim>\<open>-\<close> before it if it is positive and else \<^verbatim>\<open>0\<close>, then \<^verbatim>\<open>/\<close> and the count of frozen
  submissions), or neither (\<^verbatim>\<open>.\<close>, or \<^verbatim>\<open>-\<close> and the wrong count). A cell is frozen when
  the problem is in the frozen set \<open>fz\<close> of the team.\<close>

definition cellText :: "Team \<Rightarrow> string list \<Rightarrow> string \<Rightarrow> string" where
  "cellText T fz p =
     (let w = idx (wrongSubmissions T) p 0; f = idx (frozenSubmissions T) p 0
      in if idx (isSolved T) p False then (if w > 0 then ''+'' @ showInt w else ''+'')
         else if p \<in> set fz
         then (if w > 0 then ''-'' @ showInt w @ ''/'' @ showInt f else ''0/'' @ showInt f)
         else (if w > 0 then ''-'' @ showInt w else ''.''))"

text \<open>A board on which a wrong answer arrives after the freeze, and one with a cell of
  each kind.\<close>

definition pendingCmds :: "cmd list" where
  "pendingCmds = [ADDTEAM ''a'', START 10 1, FREEZE, SUBMIT ''A'' ''a'' ''Wrong_Answer'' 5, FLUSH]"

definition cellCmds :: "cmd list" where
  "cellCmds = [ADDTEAM ''a'', START 10 3, SUBMIT ''A'' ''a'' ''Wrong_Answer'' 1,
     SUBMIT ''B'' ''a'' ''Accepted'' 2, SUBMIT ''C'' ''a'' ''Wrong_Answer'' 3, FREEZE,
     SUBMIT ''A'' ''a'' ''Accepted'' 5, SUBMIT ''C'' ''a'' ''Wrong_Answer'' 6]"

definition cellBoard :: sys where
  "cellBoard = fst (projr (run init cellCmds))"

text \<open>An accepted submission at time 0 that arrives while the board is frozen.\<close>

definition zeroCmds :: "cmd list" where
  "zeroCmds = [ADDTEAM ''t'', START 10 1, FREEZE, SUBMIT ''A'' ''t'' ''Accepted'' 0, SCROLL]"

text \<open>The times of the accepted submissions of team \<open>t\<close> on problem \<open>p\<close> that the search
  of \<^verbatim>\<open>scrollScoreboard\<close> takes into account.\<close>

definition positiveAccepts :: "Submission list \<Rightarrow> string \<Rightarrow> string \<Rightarrow> int list" where
  "positiveAccepts subs t p =
     map time (filter (\<lambda>sub. teamName sub = t \<and> problemName sub = p \<and> status sub = ACCEPTED
                              \<and> 0 < time sub) subs)"

section \<open>Properties\<close>

subsection \<open>Map access\<close>

lemma idx_update: "idx (AList.update k v m) k' d = (if k' = k then v else idx m k' d)"
  by (simp add: idx_def update_conv')

lemma idx_touch: "idx (touch m k d) k' d = idx m k' d"
  by (auto simp: idx_def touch_def update_conv' split: option.splits)

lemma idx_incr: "idx (incr m k) k' 0 = idx m k' 0 + (if k' = k then 1 else 0)"
  by (simp add: incr_def idx_update)

lemma touch_present: "map_of m k = Some v \<Longrightarrow> touch m k d = m"
  by (simp add: touch_def)

lemma map_of_touch: "map_of (touch m k d) = (map_of m)(k \<mapsto> idx m k d)"
  by (auto simp: touch_def idx_def update_conv' split: option.splits)

subsection \<open>Invariants of a team\<close>

lemma update_absent: "map_of m k = None \<Longrightarrow> AList.update k v m = m @ [(k, v)]"
  by (induction m) (auto split: if_splits)

lemma mem_solved_iff:
  "distinct (map fst m) \<Longrightarrow> p \<in> set (map fst (filter snd m)) \<longleftrightarrow> map_of m p = Some True"
  by (induction m) (auto simp: rev_image_eqI)

lemma solved_touch:
  "map_of m p \<noteq> Some True \<Longrightarrow> map fst (filter snd (touch m p False)) = map fst (filter snd m)"
  by (auto simp: touch_def update_absent split: option.splits)

lemma distinct_touch: "distinct (map fst m) \<Longrightarrow> distinct (map fst (touch m p d))"
  by (auto simp: touch_def distinct_update split: option.splits)

lemma solved_update_True:
  "distinct (map fst m) \<Longrightarrow> map_of m p \<noteq> Some True \<Longrightarrow>
     mset (map fst (filter snd (AList.update p True m))) = add_mset p (mset (map fst (filter snd m)))"
proof (induction m)
  case Nil
  then show ?case by simp
next
  case (Cons a m)
  obtain k b where a: "a = (k, b)" by (cases a)
  show ?case
  proof (cases "k = p")
    case True
    with Cons.prems a have "b = False" by auto
    moreover from Cons.prems a True have "map_of m p = None"
      by (auto simp: map_of_eq_None_iff)
    ultimately show ?thesis using a True by simp
  next
    case False
    with Cons a show ?thesis by auto
  qed
qed

lemma solved_update_False:
  "distinct (map fst m) \<Longrightarrow> map_of m p \<noteq> Some True \<Longrightarrow>
     map fst (filter snd (AList.update p False m)) = map fst (filter snd m)"
  by (induction m) (auto split: if_splits)

lemma markSolved_Inr:
  assumes "markSolved T p tm = Inr T'"
  shows "\<exists>w. map_of (wrongSubmissions T) p = Some w
    \<and> T' = T\<lparr>isSolved := AList.update p True (isSolved T),
              firstAcceptTime := AList.update p tm (firstAcceptTime T),
              solvedCount := solvedCount T + 1,
              penaltyTime := penaltyTime T + (20 * w + tm)\<rparr>"
  using assms
  by (auto simp: markSolved_def getProblemPenalty_def at_def update_conv' Let_def
           split: option.splits sum.splits if_splits)

lemma sum_list_mset_cong:
  fixes f :: "'a \<Rightarrow> int"
  shows "mset xs = mset ys \<Longrightarrow> sum_list (map f xs) = sum_list (map f ys)"
  by (metis mset_map sum_mset_sum_list)

lemma solvedProblems_simps [simp]:
  "solvedProblems (T\<lparr>totalSubmissions := x\<rparr>) = solvedProblems T"
  "solvedProblems (T\<lparr>frozenSubmissions := x\<rparr>) = solvedProblems T"
  "solvedProblems (T\<lparr>wrongSubmissions := x\<rparr>) = solvedProblems T"
  "solvedProblems (T\<lparr>firstAcceptTime := x\<rparr>) = solvedProblems T"
  "solvedProblems (T\<lparr>solvedCount := c\<rparr>) = solvedProblems T"
  "solvedProblems (T\<lparr>penaltyTime := c\<rparr>) = solvedProblems T"
  by (simp_all add: solvedProblems_def)

lemma problemCost_simps [simp]:
  "problemCost (T\<lparr>totalSubmissions := x\<rparr>) = problemCost T"
  "problemCost (T\<lparr>frozenSubmissions := x\<rparr>) = problemCost T"
  "problemCost (T\<lparr>isSolved := y\<rparr>) = problemCost T"
  "problemCost (T\<lparr>solvedCount := c\<rparr>) = problemCost T"
  "problemCost (T\<lparr>penaltyTime := c\<rparr>) = problemCost T"
  by (simp_all add: problemCost_def fun_eq_iff)

lemma markSolved_teamOK:
  assumes ok: "teamOK T" and un: "map_of (isSolved T) p \<noteq> Some True"
    and m: "markSolved T p tm = Inr T'"
  shows "teamOK T'"
proof -
  from markSolved_Inr [OF m] obtain w where w: "map_of (wrongSubmissions T) p = Some w"
    and T': "T' = T\<lparr>isSolved := AList.update p True (isSolved T),
              firstAcceptTime := AList.update p tm (firstAcceptTime T),
              solvedCount := solvedCount T + 1,
              penaltyTime := penaltyTime T + (20 * w + tm)\<rparr>" by blast
  have fS: "isSolved T' = AList.update p True (isSolved T)"
    and fF: "firstAcceptTime T' = AList.update p tm (firstAcceptTime T)"
    and fW: "wrongSubmissions T' = wrongSubmissions T"
    and fC: "solvedCount T' = solvedCount T + 1"
    and fP: "penaltyTime T' = penaltyTime T + (20 * w + tm)"
    by (simp_all add: T')
  from ok have d: "distinct (map fst (isSolved T))" by (simp add: teamOK_def)
  have ms: "mset (solvedProblems T') = add_mset p (mset (solvedProblems T))"
    using solved_update_True [OF d un] by (simp add: solvedProblems_def fS)
  have notin: "p \<notin> set (solvedProblems T)"
    using un mem_solved_iff [OF d, of p] by (simp add: solvedProblems_def)
  have setS: "set (solvedProblems T') = insert p (set (solvedProblems T))"
    using ms by (metis set_mset_add_mset_insert set_mset_mset)
  have len: "length (solvedProblems T') = Suc (length (solvedProblems T))"
    using ms by (metis size_add_mset size_mset)
  have cost_p: "problemCost T' p = 20 * w + tm"
    by (simp add: problemCost_def fF fW idx_update) (simp add: idx_def w)
  have cost_q: "\<And>q. q \<in> set (solvedProblems T) \<Longrightarrow> problemCost T' q = problemCost T q"
    using notin by (auto simp: problemCost_def fF fW idx_update)
  have "sum_list (map (problemCost T') (solvedProblems T'))
        = sum_list (map (problemCost T') (p # solvedProblems T))"
    by (rule sum_list_mset_cong) (simp add: ms)
  also have "\<dots> = (20 * w + tm) + sum_list (map (problemCost T) (solvedProblems T))"
    using cost_q by (simp add: cost_p cong: map_cong)
  finally have pen: "sum_list (map (problemCost T') (solvedProblems T'))
        = penaltyTime T + (20 * w + tm)"
    using ok by (simp add: teamOK_def)
  have slots: "\<forall>q \<in> set (solvedProblems T').
           map_of (firstAcceptTime T') q \<noteq> None \<and> map_of (wrongSubmissions T') q \<noteq> None"
    using ok w unfolding setS fF fW by (auto simp: teamOK_def update_conv')
  have dist: "distinct (map fst (isSolved T'))"
    using d by (simp add: fS distinct_update)
  have cnt: "solvedCount T' = int (length (solvedProblems T'))"
    using ok by (simp add: fC len teamOK_def)
  show ?thesis
    unfolding teamOK_def using dist slots cnt pen fP by simp
qed

lemma teamOK_total [simp]: "teamOK (T\<lparr>totalSubmissions := x\<rparr>) = teamOK T"
  by (simp add: teamOK_def solvedProblems_def problemCost_def)

lemma teamOK_frozen [simp]: "teamOK (T\<lparr>frozenSubmissions := x\<rparr>) = teamOK T"
  by (simp add: teamOK_def solvedProblems_def problemCost_def)

lemma teamOK_touch:
  "teamOK T \<Longrightarrow> map_of (isSolved T) p \<noteq> Some True \<Longrightarrow>
     teamOK (T\<lparr>isSolved := touch (isSolved T) p False\<rparr>)"
  by (simp add: teamOK_def solvedProblems_def problemCost_def solved_touch distinct_touch)

lemma teamOK_touch_solved:
  "map_of (isSolved T) p = Some True \<Longrightarrow> T\<lparr>isSolved := touch (isSolved T) p False\<rparr> = T"
  by (simp add: touch_def)

lemma teamOK_wrong:
  assumes "teamOK T" and "map_of (isSolved T) p \<noteq> Some True"
  shows "teamOK (T\<lparr>wrongSubmissions := incr (wrongSubmissions T) p\<rparr>)"
proof -
  let ?T = "T\<lparr>wrongSubmissions := incr (wrongSubmissions T) p\<rparr>"
  from assms have notin: "p \<notin> set (solvedProblems T)"
    using mem_solved_iff [of "isSolved T" p] by (simp add: solvedProblems_def teamOK_def)
  then have "\<And>q. q \<in> set (solvedProblems T) \<Longrightarrow> problemCost ?T q = problemCost T q"
    by (auto simp: problemCost_def incr_def idx_update)
  then have cost: "map (problemCost ?T) (solvedProblems T) = map (problemCost T) (solvedProblems T)"
    by simp
  have slots: "\<forall>q \<in> set (solvedProblems T).
      map_of (firstAcceptTime ?T) q \<noteq> None \<and> map_of (wrongSubmissions ?T) q \<noteq> None"
    using assms(1) by (auto simp: teamOK_def incr_def update_conv')
  have pen: "penaltyTime ?T = sum_list (map (problemCost ?T) (solvedProblems ?T))"
    using assms(1) by (simp only: cost solvedProblems_simps) (simp add: teamOK_def)
  show ?thesis
    unfolding teamOK_def using assms(1) slots pen by (simp add: teamOK_def)
qed

lemma wrongOK_simps [simp]:
  "wrongOK (T\<lparr>totalSubmissions := x\<rparr>) = wrongOK T"
  "wrongOK (T\<lparr>frozenSubmissions := x\<rparr>) = wrongOK T"
  "wrongOK (T\<lparr>isSolved := y\<rparr>) = wrongOK T"
  "wrongOK (T\<lparr>firstAcceptTime := z\<rparr>) = wrongOK T"
  "wrongOK (T\<lparr>solvedCount := c\<rparr>) = wrongOK T"
  "wrongOK (T\<lparr>penaltyTime := c\<rparr>) = wrongOK T"
  by (simp_all add: wrongOK_def)

lemma wrongOK_incr: "wrongOK T \<Longrightarrow> wrongOK (T\<lparr>wrongSubmissions := incr (wrongSubmissions T) p\<rparr>)"
  by (auto simp: wrongOK_def incr_def update_conv' idx_def split: option.splits if_splits)

lemma markSolved_wrongOK: "wrongOK T \<Longrightarrow> markSolved T p tm = Inr T' \<Longrightarrow> wrongOK T'"
  by (drule markSolved_Inr) auto

lemma newTeam_OK [simp]: "teamOK (newTeam n)" "wrongOK (newTeam n)"
  by (simp_all add: teamOK_def wrongOK_def newTeam_def solvedProblems_def)

lemma submitProblem_eq:
  "submitProblem p t statusStr tm s =
     (case submitTeam (isFrozen s) p (stringToStatus statusStr) tm (teamAt s t) of
        Inl e \<Rightarrow> Inl e
      | Inr T' \<Rightarrow>
          Inr (s\<lparr>submissions := submissions s @
                    [\<lparr>teamName = t, problemName = p, status = stringToStatus statusStr,
                      time = tm\<rparr>],
                teams := AList.update t T' (teams s),
                frozenProblems :=
                  (if isFrozen s \<and> \<not> idx (isSolved (teamAt s t)) p False
                      \<and> stringToStatus statusStr = ACCEPTED
                   then (frozenProblems s)(t := setInsert p (frozenProblems s t))
                   else frozenProblems s)\<rparr>))"
  by (simp add: submitProblem_def submitTeam_def Let_def split: sum.splits)

lemma teamAt_teams: "teams s' = AList.update t T (teams s) \<Longrightarrow>
   teamAt s' u = (if u = t then T else teamAt s u)"
  by (simp add: teamAt_def idx_update)

lemma teamAt_cong: "teams s' = teams s \<Longrightarrow> teamAt s' = teamAt s"
  by (simp add: teamAt_def fun_eq_iff)

lemma revealStep_eq:
  "revealStep s t p rc =
     (case revealTeam (submissions s) t p (teamAt s t) of
        Inl e \<Rightarrow> Inl e
      | Inr (T2, solvedNow) \<Rightarrow>
          (let s1 = s\<lparr>frozenProblems := (frozenProblems s)(t := removeAll p (frozenProblems s t)),
                     teams := AList.update t T2 (teams s)\<rparr>;
               T3 = T2\<lparr>frozenSubmissions := AList.update p 0 (frozenSubmissions T2)\<rparr>
           in if solvedNow then
                (case updateRankings s1 of
                   Inl e \<Rightarrow> Inl e
                 | Inr s2 \<Rightarrow> Inr (s2\<lparr>teams := AList.update t T3 (teams s)\<rparr>,
                                noteChange (teamOrder s) (teamOrder s2) t rc))
              else Inr (s1\<lparr>teams := AList.update t T3 (teams s)\<rparr>, rc)))"
  by (auto simp: revealStep_def revealTeam_def Let_def clearFrozenCount_def teamAt_def idx_update
        updateRankings_def
      split: sum.splits)

lemma teamLe_refl [simp]: "teamLe T T"
  by (simp add: teamLe_def)


lemma teamLe_simps [simp]:
  "teamLe T (T'\<lparr>totalSubmissions := x\<rparr>) = teamLe T T'"
  "teamLe T (T'\<lparr>frozenSubmissions := x\<rparr>) = teamLe T T'"
  "teamLe T (T'\<lparr>wrongSubmissions := x\<rparr>) = teamLe T T'"
  by (simp_all add: teamLe_def)



lemma submitTeam_cases:
  assumes "submitTeam fr p st tm T = Inr T'"
  obtains (frozen) "fr" and "\<not> idx (isSolved T) p False"
      and "T' = (touched T p)\<lparr>frozenSubmissions := incr (frozenSubmissions T) p\<rparr>"
    | (accept) "\<not> fr" and "\<not> idx (isSolved T) p False" and "st = ACCEPTED"
      and "markSolved (touched T p) p tm = Inr T'"
    | (wrong) "\<not> fr" and "\<not> idx (isSolved T) p False" and "st \<noteq> ACCEPTED"
      and "T' = (touched T p)\<lparr>wrongSubmissions := incr (wrongSubmissions T) p\<rparr>"
    | (solved) "idx (isSolved T) p False"
      and "T' = T\<lparr>totalSubmissions := incr (totalSubmissions T) p\<rparr>"
  using assms
  by (auto simp: submitTeam_def touched_def Let_def idx_def touch_def
           split: if_splits option.splits)

lemma touched_fields [simp]:
  "solvedCount (touched T p) = solvedCount T"
  "penaltyTime (touched T p) = penaltyTime T"
  "wrongSubmissions (touched T p) = wrongSubmissions T"
  "firstAcceptTime (touched T p) = firstAcceptTime T"
  "frozenSubmissions (touched T p) = frozenSubmissions T"
  "isSolved (touched T p) = touch (isSolved T) p False"
  "totalSubmissions (touched T p) = incr (totalSubmissions T) p"
  by (simp_all add: touched_def)

lemma unsolved_iff: "\<not> idx m p False \<longleftrightarrow> map_of m p \<noteq> Some True"
  by (auto simp: idx_def split: option.splits)

lemma touched_teamOK: "teamOK T \<Longrightarrow> \<not> idx (isSolved T) p False \<Longrightarrow> teamOK (touched T p)"
  using teamOK_touch [of "T\<lparr>totalSubmissions := incr (totalSubmissions T) p\<rparr>" p]
  by (simp add: touched_def unsolved_iff)

lemma touched_unsolved:
  "\<not> idx (isSolved T) p False \<Longrightarrow> map_of (isSolved (touched T p)) p \<noteq> Some True"
  by (simp add: map_of_touch)

lemma touched_wrongOK [simp]: "wrongOK (touched T p) = wrongOK T"
  by (simp add: touched_def)


lemma submitTeam_teamOK:
  assumes "teamOK T" and "submitTeam fr p st tm T = Inr T'"
  shows "teamOK T'"
  using assms(2)
proof (cases rule: submitTeam_cases)
  case frozen
  with touched_teamOK [OF assms(1)] show ?thesis by simp
next
  case accept
  from markSolved_teamOK [OF touched_teamOK [OF assms(1) accept(2)]
      touched_unsolved [OF accept(2)] accept(4)]
  show ?thesis .
next
  case wrong
  from teamOK_wrong [OF touched_teamOK [OF assms(1) wrong(2)] touched_unsolved [OF wrong(2)]]
  show ?thesis by (simp add: wrong)
next
  case solved
  with assms(1) show ?thesis by simp
qed

lemma submitTeam_wrongOK:
  assumes "wrongOK T" and "submitTeam fr p st tm T = Inr T'"
  shows "wrongOK T'"
  using assms(2)
proof (cases rule: submitTeam_cases)
  case accept
  from markSolved_wrongOK [OF _ accept(4)] assms(1) show ?thesis by simp
next
  case wrong
  from wrongOK_incr [of "touched T p" p] assms(1) show ?thesis by (simp add: wrong)
qed (use assms(1) in simp_all)



lemma submitTeam_frozen_flags:
  assumes "submitTeam True p st tm T = Inr T'"
  shows "map_of (isSolved T') q = Some True \<longleftrightarrow> map_of (isSolved T) q = Some True"
  using assms
  by (cases rule: submitTeam_cases) (auto simp: map_of_touch unsolved_iff)


lemma revealTeam_teamOK:
  assumes "teamOK T" and "map_of (isSolved T) p \<noteq> Some True" and "revealTeam subs t p T = Inr (T', b)"
  shows "teamOK T'"
  using assms
  by (auto simp: revealTeam_def Let_def split: if_splits sum.splits
           dest!: markSolved_teamOK [rotated 2])

lemma revealTeam_wrongOK:
  assumes "wrongOK T" and "revealTeam subs t p T = Inr (T', b)"
  shows "wrongOK T'"
  using assms
  by (auto simp: revealTeam_def Let_def split: if_splits sum.splits dest!: markSolved_wrongOK [rotated])



lemma allTeams_update:
  "allTeams P s \<Longrightarrow> P T' \<Longrightarrow> teams s' = AList.update t T' (teams s) \<Longrightarrow> allTeams P s'"
  by (auto simp: allTeams_def update_conv' split: if_splits)

lemma allTeams_teamAt: "allTeams P s \<Longrightarrow> P (newTeam []) \<Longrightarrow> P (teamAt s t)"
  by (auto simp: allTeams_def teamAt_def idx_def split: option.splits)

lemma allTeams_cong: "teams s' = teams s \<Longrightarrow> allTeams P s' = allTeams P s"
  by (simp add: allTeams_def)

lemma keys_update: "fst ` set (AList.update k v m) = insert k (fst ` set m)"
  by (simp add: dom_update)

subsection \<open>init\<close>

lemma init_inv: "regInv init" "boardInv init" "allTeams wrongOK init"
  by (simp_all add: regInv_def boardInv_def init_def allTeams_def frozenOK_def startOK_def
        slotsOK_def)

subsection \<open>addTeam\<close>

lemma addTeam_regInv: "regInv s \<Longrightarrow> regInv (fst (addTeam n s))"
  by (auto simp: addTeam_def regInv_def keys_update map_of_eq_None_iff)

lemma addTeam_wrongOK: "allTeams wrongOK s \<Longrightarrow> allTeams wrongOK (fst (addTeam n s))"
  by (auto simp: addTeam_def elim!: allTeams_update)

lemma addTeam_boardInv:
  assumes "boardInv s"
  shows "boardInv (fst (addTeam n s))"
proof (cases "competitionStarted s \<or> map_of (teams s) n \<noteq> None")
  case True
  with assms show ?thesis by (auto simp: addTeam_def)
next
  case False
  let ?s = "s\<lparr>teams := AList.update n (newTeam n) (teams s), teamOrder := teamOrder s @ [n]\<rparr>"
  from False have eq: "fst (addTeam n s) = ?s" by (simp add: addTeam_def)
  have T: "teamAt ?s u = (if u = n then newTeam n else teamAt s u)" for u
    by (rule teamAt_teams) simp
  from assms False have st: "allTeams fresh s" "problemNames s = []" "frozenProblems s = (\<lambda>_. [])"
    by (auto simp: boardInv_def startOK_def)
  have "allTeams teamOK ?s"
    using assms by (auto simp: boardInv_def elim!: allTeams_update)
  moreover have "frozenOK ?s"
    using st by (simp add: frozenOK_def)
  moreover have "startOK ?s"
    using st by (auto simp: startOK_def fresh_def newTeam_def elim!: allTeams_update)
  moreover have "slotsOK ?s"
    using st by (simp add: slotsOK_def)
  ultimately show ?thesis unfolding eq boardInv_def by simp
qed

subsection \<open>startCompetition\<close>

lemma fold_initProblem_fields:
  "isSolved (fold initProblem names T) = fold (\<lambda>p. AList.update p False) names (isSolved T)"
  "wrongSubmissions (fold initProblem names T)
     = fold (\<lambda>p. AList.update p 0) names (wrongSubmissions T)"
  "firstAcceptTime (fold initProblem names T)
     = fold (\<lambda>p. AList.update p 0) names (firstAcceptTime T)"
  "frozenSubmissions (fold initProblem names T)
     = fold (\<lambda>p. AList.update p 0) names (frozenSubmissions T)"
  "solvedCount (fold initProblem names T) = solvedCount T"
  "penaltyTime (fold initProblem names T) = penaltyTime T"
  by (induction names arbitrary: T) (simp_all add: initProblem_def)

lemma map_of_fold_update:
  "map_of (fold (\<lambda>p. AList.update p v) names m) q
     = (if q \<in> set names then Some v else map_of m q)"
  by (induction names arbitrary: m) (auto simp: update_conv')

lemma distinct_fold_update:
  "distinct (map fst m) \<Longrightarrow> distinct (map fst (fold (\<lambda>p. AList.update p v) names m))"
  by (induction names arbitrary: m) (auto simp: distinct_update)

lemma no_solved_iff:
  assumes "distinct (map fst m)"
  shows "filter snd m = [] \<longleftrightarrow> (\<forall>p. map_of m p \<noteq> Some True)"
proof -
  have "filter snd m = [] \<longleftrightarrow> (\<forall>p. p \<notin> set (map fst (filter snd m)))"
    by (cases "filter snd m") (auto simp del: set_map set_filter filter_eq_Cons_iff)
  also have "\<dots> \<longleftrightarrow> (\<forall>p. map_of m p \<noteq> Some True)"
    using mem_solved_iff [OF assms] by simp
  finally show ?thesis .
qed

lemma initProblems_teamOK:
  assumes "teamOK T" and "fresh T"
  shows "teamOK (fold initProblem names T)"
proof -
  let ?T = "fold initProblem names T"
  have d: "distinct (map fst (isSolved ?T))"
    using assms(2) by (simp add: fold_initProblem_fields distinct_fold_update fresh_def)
  have "\<forall>p. map_of (isSolved ?T) p \<noteq> Some True"
    using assms(2) by (simp add: fold_initProblem_fields map_of_fold_update fresh_def)
  with d have "solvedProblems ?T = []"
    by (simp add: solvedProblems_def no_solved_iff)
  moreover from assms have "solvedCount T = 0" "penaltyTime T = 0"
    by (simp_all add: teamOK_def fresh_def solvedProblems_def)
  ultimately show ?thesis
    using d by (simp add: teamOK_def fold_initProblem_fields)
qed

lemma initProblems_wrongOK: "wrongOK T \<Longrightarrow> wrongOK (fold initProblem names T)"
  by (auto simp: wrongOK_def fold_initProblem_fields map_of_fold_update split: if_splits)

lemma initProblems_hasSlots: "p \<in> set names \<Longrightarrow> hasSlots (fold initProblem names T) p"
  by (simp add: hasSlots_def fold_initProblem_fields map_of_fold_update)

lemma map_of_map_teams:
  "map_of (map (\<lambda>(n, T). (n, f T)) al) t = map_option f (map_of al t)"
  by (induction al) auto

lemma startCompetition_teams:
  "\<not> competitionStarted s \<Longrightarrow>
     map_of (teams (fst (startCompetition d k s))) t
       = map_option (fold initProblem (problemNames s @ genProblemNames k)) (map_of (teams s) t)"
  by (simp add: startCompetition_def Let_def map_of_map_teams del: fold_append)

lemma keys_map_teams: "fst ` (\<lambda>(n, T). (n, f T)) ` A = fst ` A"
  by (auto simp: image_iff split: prod.splits) force+

lemma startCompetition_fields:
  "\<not> competitionStarted s \<Longrightarrow>
     teamOrder (fst (startCompetition d k s)) = teamOrder s
     \<and> frozenProblems (fst (startCompetition d k s)) = frozenProblems s
     \<and> isFrozen (fst (startCompetition d k s)) = isFrozen s
     \<and> submissions (fst (startCompetition d k s)) = submissions s
     \<and> competitionStarted (fst (startCompetition d k s))
     \<and> problemNames (fst (startCompetition d k s)) = problemNames s @ genProblemNames k
     \<and> fst ` set (teams (fst (startCompetition d k s))) = fst ` set (teams s)"
  by (simp add: startCompetition_def Let_def keys_map_teams del: fold_append)

lemma startCompetition_started [simp]:
  "competitionStarted s \<Longrightarrow> fst (startCompetition d k s) = s"
  by (simp add: startCompetition_def)

lemma startCompetition_regInv: "regInv s \<Longrightarrow> regInv (fst (startCompetition d k s))"
  by (cases "competitionStarted s") (auto simp: regInv_def startCompetition_fields)

lemma startCompetition_wrongOK:
  "allTeams wrongOK s \<Longrightarrow> allTeams wrongOK (fst (startCompetition d k s))"
  by (cases "competitionStarted s")
    (auto simp: allTeams_def startCompetition_teams intro: initProblems_wrongOK)

lemma startCompetition_boardInv:
  assumes "boardInv s" and "regInv s"
  shows "boardInv (fst (startCompetition d k s))"
proof (cases "competitionStarted s")
  case True
  with assms show ?thesis by simp
next
  case False
  let ?s = "fst (startCompetition d k s)"
  note f = startCompetition_fields [OF False, of d k]
  note tm = startCompetition_teams [OF False, of d k]
  from assms False have st: "allTeams fresh s" "problemNames s = []" "frozenProblems s = (\<lambda>_. [])"
    by (auto simp: boardInv_def startOK_def)
  from assms have ok: "allTeams teamOK s" by (simp add: boardInv_def)
  have a: "allTeams teamOK ?s"
    using ok st(1) by (auto simp: allTeams_def tm st(2) intro: initProblems_teamOK)
  have b: "frozenOK ?s"
    using st(3) f by (simp add: frozenOK_def)
  have c: "startOK ?s"
    using f by (simp add: startOK_def)
  have "hasSlots (teamAt ?s t) p" if "t \<in> set (teamOrder s)" and "p \<in> set (genProblemNames k)"
    for t p
  proof -
    from that(1) assms(2) have "map_of (teams s) t \<noteq> None"
      by (auto simp: regInv_def map_of_eq_None_iff)
    then obtain T where "map_of (teams s) t = Some T" by auto
    then have "teamAt ?s t = fold initProblem (genProblemNames k) T"
      by (simp add: teamAt_def idx_def tm st(2))
    with that(2) show ?thesis by (simp add: initProblems_hasSlots)
  qed
  then have e: "slotsOK ?s"
    using f by (simp add: slotsOK_def st(2))
  from a b c e show ?thesis by (simp add: boardInv_def)
qed

subsection \<open>submitProblem\<close>

lemma submitProblem_Inr:
  assumes "submitProblem p t statusStr tm s = Inr s'"
  shows "\<exists>T'. submitTeam (isFrozen s) p (stringToStatus statusStr) tm (teamAt s t) = Inr T'
    \<and> teams s' = AList.update t T' (teams s)
    \<and> teamOrder s' = teamOrder s \<and> isFrozen s' = isFrozen s
    \<and> competitionStarted s' = competitionStarted s \<and> problemNames s' = problemNames s
    \<and> submissions s' = submissions s @
         [\<lparr>teamName = t, problemName = p, status = stringToStatus statusStr, time = tm\<rparr>]
    \<and> frozenProblems s' =
         (if isFrozen s \<and> \<not> idx (isSolved (teamAt s t)) p False
             \<and> stringToStatus statusStr = ACCEPTED
          then (frozenProblems s)(t := setInsert p (frozenProblems s t))
          else frozenProblems s)"
  using assms unfolding submitProblem_eq by (auto split: sum.splits)

lemma submitTeam_hasSlots:
  assumes "hasSlots T q" and "submitTeam fr p st tm T = Inr T'"
  shows "hasSlots T' q"
  using assms(2,1)
  by (cases rule: submitTeam_cases)
    (auto simp: hasSlots_def map_of_touch incr_def update_conv' dest!: markSolved_Inr)

lemma set_setInsert [simp]: "set (setInsert p ps) = insert p (set ps)"
  by (auto simp: setInsert_def set_insort_key)

lemma submitProblem_regInv:
  assumes "regInv s" and "submitProblem p t statusStr tm s = Inr s'"
  shows "regInv s'"
  using submitProblem_Inr [OF assms(2)] assms(1)
  by (auto simp: regInv_def keys_update)

lemma submitProblem_wrongOK:
  assumes "allTeams wrongOK s" and "submitProblem p t statusStr tm s = Inr s'"
  shows "allTeams wrongOK s'"
proof -
  from submitProblem_Inr [OF assms(2)] obtain T' where
    T': "submitTeam (isFrozen s) p (stringToStatus statusStr) tm (teamAt s t) = Inr T'"
    and tm: "teams s' = AList.update t T' (teams s)" by blast
  from allTeams_teamAt [OF assms(1)] have "wrongOK (teamAt s t)" by simp
  from assms(1) submitTeam_wrongOK [OF this T'] tm show ?thesis
    by (rule allTeams_update)
qed

lemma submitProblem_boardInv:
  assumes inv: "boardInv s" and st: "competitionStarted s"
    and sub: "submitProblem p t statusStr tm s = Inr s'"
  shows "boardInv s'"
proof -
  from submitProblem_Inr [OF sub] obtain T' where
    T': "submitTeam (isFrozen s) p (stringToStatus statusStr) tm (teamAt s t) = Inr T'"
    and tm: "teams s' = AList.update t T' (teams s)"
    and ord: "teamOrder s' = teamOrder s" and fr: "isFrozen s' = isFrozen s"
    and cs: "competitionStarted s' = competitionStarted s"
    and pn: "problemNames s' = problemNames s"
    and fp: "frozenProblems s' =
         (if isFrozen s \<and> \<not> idx (isSolved (teamAt s t)) p False
             \<and> stringToStatus statusStr = ACCEPTED
          then (frozenProblems s)(t := setInsert p (frozenProblems s t))
          else frozenProblems s)" by blast
  note at = teamAt_teams [OF tm]
  from inv have ok: "allTeams teamOK s" and fz: "frozenOK s" and sl: "slotsOK s"
    by (simp_all add: boardInv_def)
  from allTeams_teamAt [OF ok] have okT: "teamOK (teamAt s t)" by simp
  have a: "allTeams teamOK s'"
    using ok submitTeam_teamOK [OF okT T'] tm by (rule allTeams_update)
  have b: "frozenOK s'"
  proof (cases "isFrozen s")
    case False
    with fz fp fr show ?thesis by (simp add: frozenOK_def)
  next
    case True
    from T' True have flags: "\<And>q. map_of (isSolved T') q = Some True
        \<longleftrightarrow> map_of (isSolved (teamAt s t)) q = Some True"
      by (simp add: submitTeam_frozen_flags)
    show ?thesis
      unfolding frozenOK_def
      using fz True fr
      by (auto simp: frozenOK_def fp at flags unsolved_iff split: if_splits)
  qed
  have c: "startOK s'"
    using st cs by (simp add: startOK_def)
  have e: "slotsOK s'"
    using sl submitTeam_hasSlots [OF _ T']
    by (auto simp: slotsOK_def ord pn at)
  from a b c e show ?thesis by (simp add: boardInv_def)
qed

subsection \<open>freezeScoreboard, updateRankings\<close>

lemma teamAt_isFrozen [simp]: "teamAt (s\<lparr>isFrozen := x\<rparr>) = teamAt s"
  by (simp add: teamAt_def fun_eq_iff)

lemma freeze_inv:
  "regInv s \<Longrightarrow> regInv (fst (freezeScoreboard s))"
  "allTeams wrongOK s \<Longrightarrow> allTeams wrongOK (fst (freezeScoreboard s))"
  "boardInv s \<Longrightarrow> boardInv (fst (freezeScoreboard s))"
  by (cases "isFrozen s";
      simp add: freezeScoreboard_def regInv_def allTeams_def boardInv_def frozenOK_def
        startOK_def slotsOK_def)+

lemma updateRankings_inv:
  assumes "updateRankings s = Inr s'"
  shows "regInv s \<Longrightarrow> regInv s'"
    and "allTeams wrongOK s \<Longrightarrow> allTeams wrongOK s'"
    and "boardInv s \<Longrightarrow> boardInv s'"
proof -
  note f = updateRankings_fields [OF assms]
  from f have set_eq: "set (teamOrder s') = set (teamOrder s)" by (metis set_mset_mset)
  from f have d: "distinct (teamOrder s') = distinct (teamOrder s)" by (metis mset_eq_imp_distinct_iff)
  have at: "teamAt s' = teamAt s" by (rule teamAt_cong) (simp add: f)
  show "regInv s \<Longrightarrow> regInv s'" using f by (simp add: regInv_def set_eq d)
  show "allTeams wrongOK s \<Longrightarrow> allTeams wrongOK s'" using f by (simp add: allTeams_def)
  show "boardInv s \<Longrightarrow> boardInv s'"
    using f by (simp add: boardInv_def allTeams_def frozenOK_def startOK_def slotsOK_def at set_eq)
qed

subsection \<open>revealStep\<close>

lemma revealStep_Inr:
  assumes "revealStep s t p rc = Inr (s', rc')"
  shows "\<exists>T2 b. revealTeam (submissions s) t p (teamAt s t) = Inr (T2, b)
    \<and> teams s' = AList.update t (T2\<lparr>frozenSubmissions := AList.update p 0 (frozenSubmissions T2)\<rparr>)
                   (teams s)
    \<and> frozenProblems s' = (frozenProblems s)(t := removeAll p (frozenProblems s t))
    \<and> isFrozen s' = isFrozen s \<and> competitionStarted s' = competitionStarted s
    \<and> problemNames s' = problemNames s \<and> submissions s' = submissions s
    \<and> mset (teamOrder s') = mset (teamOrder s)
    \<and> (if b then (\<exists>s2. updateRankings
                   (s\<lparr>frozenProblems := (frozenProblems s)(t := removeAll p (frozenProblems s t)),
                      teams := AList.update t T2 (teams s)\<rparr>) = Inr s2
                 \<and> teamOrder s' = teamOrder s2)
               \<and> rc' = noteChange (teamOrder s) (teamOrder s') t rc
        else teamOrder s' = teamOrder s \<and> rc' = rc)"
proof (cases "revealTeam (submissions s) t p (teamAt s t)")
  case (Inl e)
  with assms show ?thesis by (simp add: revealStep_eq)
next
  case (Inr x)
  obtain T2 b where x: "x = (T2, b)" by (cases x)
  let ?s1 = "s\<lparr>frozenProblems := (frozenProblems s)(t := removeAll p (frozenProblems s t)),
                teams := AList.update t T2 (teams s)\<rparr>"
  let ?T3 = "T2\<lparr>frozenSubmissions := AList.update p 0 (frozenSubmissions T2)\<rparr>"
  show ?thesis
  proof (cases b)
    case False
    with assms Inr x have "s' = ?s1\<lparr>teams := AList.update t ?T3 (teams s)\<rparr>" and "rc' = rc"
      by (simp_all add: revealStep_eq Let_def)
    with Inr x False show ?thesis by (intro exI [of _ T2] exI [of _ b]) simp
  next
    case True
    show ?thesis
    proof (cases "updateRankings ?s1")
      case (Inl e)
      with assms Inr x True show ?thesis by (simp add: revealStep_eq Let_def)
    next
      case ur: (Inr s2)
      with assms Inr x True have s': "s' = s2\<lparr>teams := AList.update t ?T3 (teams s)\<rparr>"
        and rc': "rc' = noteChange (teamOrder s) (teamOrder s2) t rc"
        by (simp_all add: revealStep_eq Let_def)
      note f = updateRankings_fields [OF ur]
      from Inr x True f ur rc' show ?thesis by (intro exI [of _ T2] exI [of _ b]) (simp add: s')
    qed
  qed
qed

lemma revealTeam_flags:
  assumes "revealTeam subs t p T = Inr (T', b)"
  shows "map_of (isSolved T') q = Some True
         \<longleftrightarrow> map_of (isSolved T) q = Some True \<or> (b \<and> q = p)"
  using assms
  by (auto simp: revealTeam_def Let_def update_conv' split: if_splits sum.splits
           dest!: markSolved_Inr)

lemma revealTeam_hasSlots:
  assumes "hasSlots T q" and "revealTeam subs t p T = Inr (T', b)"
  shows "hasSlots (T'\<lparr>frozenSubmissions := AList.update p 0 (frozenSubmissions T')\<rparr>) q"
  using assms
  by (auto simp: revealTeam_def Let_def update_conv' hasSlots_def map_of_touch
           split: if_splits sum.splits dest!: markSolved_Inr)

lemma revealStep_regInv:
  assumes "regInv s" and "revealStep s t p rc = Inr (s', rc')"
  shows "regInv s'"
proof -
  from revealStep_Inr [OF assms(2)] obtain T' where
    tm: "teams s' = AList.update t T' (teams s)"
    and ms: "mset (teamOrder s') = mset (teamOrder s)" by blast
  from ms have "set (teamOrder s') = set (teamOrder s)" by (metis set_mset_mset)
  moreover from ms have "distinct (teamOrder s') = distinct (teamOrder s)"
    by (metis mset_eq_imp_distinct_iff)
  ultimately show ?thesis using assms(1) by (auto simp: regInv_def tm keys_update)
qed

lemma revealStep_wrongOK:
  assumes "allTeams wrongOK s" and "revealStep s t p rc = Inr (s', rc')"
  shows "allTeams wrongOK s'"
proof -
  from revealStep_Inr [OF assms(2)] obtain T2 b where
    rt: "revealTeam (submissions s) t p (teamAt s t) = Inr (T2, b)"
    and tm: "teams s' = AList.update t
        (T2\<lparr>frozenSubmissions := AList.update p 0 (frozenSubmissions T2)\<rparr>) (teams s)" by blast
  from allTeams_teamAt [OF assms(1)] have "wrongOK (teamAt s t)" by simp
  from revealTeam_wrongOK [OF this rt]
  have "wrongOK (T2\<lparr>frozenSubmissions := AList.update p 0 (frozenSubmissions T2)\<rparr>)" by simp
  with assms(1) show ?thesis using tm by (rule allTeams_update)
qed

lemma revealStep_boardInv:
  assumes inv: "boardInv s" and mem: "p \<in> set (frozenProblems s t)"
    and rs: "revealStep s t p rc = Inr (s', rc')"
  shows "boardInv s'"
proof -
  from revealStep_Inr [OF rs] obtain T2 b where
    rt: "revealTeam (submissions s) t p (teamAt s t) = Inr (T2, b)"
    and tm: "teams s' = AList.update t
        (T2\<lparr>frozenSubmissions := AList.update p 0 (frozenSubmissions T2)\<rparr>) (teams s)"
    and fp: "frozenProblems s' = (frozenProblems s)(t := removeAll p (frozenProblems s t))"
    and fr: "isFrozen s' = isFrozen s" and cs: "competitionStarted s' = competitionStarted s"
    and pn: "problemNames s' = problemNames s"
    and ms: "mset (teamOrder s') = mset (teamOrder s)" by blast
  let ?T3 = "T2\<lparr>frozenSubmissions := AList.update p 0 (frozenSubmissions T2)\<rparr>"
  note at = teamAt_teams [OF tm]
  from ms have set_eq: "set (teamOrder s') = set (teamOrder s)" by (metis set_mset_mset)
  from inv have ok: "allTeams teamOK s" and fz: "frozenOK s" and so: "startOK s"
    and sl: "slotsOK s" by (simp_all add: boardInv_def)
  from fz mem have un: "map_of (isSolved (teamAt s t)) p \<noteq> Some True"
    and frozen: "isFrozen s"
    by (auto simp: frozenOK_def)
  from so mem have started: "competitionStarted s" by (auto simp: startOK_def)
  from allTeams_teamAt [OF ok] have okT: "teamOK (teamAt s t)" by simp
  from revealTeam_teamOK [OF okT un rt] have "teamOK ?T3" by simp
  with ok have a: "allTeams teamOK s'" using tm by (rule allTeams_update)
  have b: "frozenOK s'"
    unfolding frozenOK_def
    using fz frozen fr revealTeam_flags [OF rt]
    by (auto simp: frozenOK_def fp at)
  have c: "startOK s'"
    using started cs by (simp add: startOK_def)
  have e: "slotsOK s'"
    using sl revealTeam_hasSlots [OF _ rt]
    by (auto simp: slotsOK_def set_eq pn at)
  from a b c e show ?thesis by (simp add: boardInv_def)
qed

subsection \<open>The loop\<close>

lemma scrollLoop_rule:
  assumes "scrollLoop s rc = Inr (s', rc')" and "I s rc"
    and step: "\<And>s rc t p s1 rc1. I s rc \<Longrightarrow> findUnfreeze s = (t, p) \<Longrightarrow> t \<noteq> [] \<Longrightarrow>
                 revealStep s t p rc = Inr (s1, rc1) \<Longrightarrow> I s1 rc1"
  shows "I s' rc' \<and> fst (findUnfreeze s') = []"
  using assms(1,2)
proof (induction s rc rule: scrollLoop.induct)
  case (1 s rc)
  show ?case
  proof (cases "fst (findUnfreeze s) = []")
    case True
    with "1.prems" show ?thesis by (simp add: scrollLoop.simps [of s rc])
  next
    case False
    from "1.prems"(1) False obtain s1 rc1 where
      rs: "revealStep s (fst (findUnfreeze s)) (snd (findUnfreeze s)) rc = Inr (s1, rc1)"
      and rest: "scrollLoop s1 rc1 = Inr (s', rc')"
      by (auto simp: scrollLoop.simps [of s rc] split: sum.splits)
    have "I s1 rc1"
      by (rule step [OF "1.prems"(2) _ False rs]) simp
    from "1.IH" [OF False rs refl rest this] show ?thesis .
  qed
qed

subsection \<open>scrollScoreboard and flushScoreboard\<close>

lemma scrollScoreboard_Inr:
  assumes "scrollScoreboard s = Inr (s', out)" and "isFrozen s"
  shows "\<exists>s1 board s2 rc final.
      updateRankings s = Inr s1 \<and> printScoreboard s1 = Inr board
      \<and> scrollLoop s1 [] = Inr (s2, rc) \<and> printScoreboard s2 = Inr final
      \<and> s' = s2\<lparr>isFrozen := False, frozenProblems := (\<lambda>_. [])\<rparr>
      \<and> out = [''[Info]Scroll scoreboard.''] @ board @ map (changeLine s2) rc @ final"
  using assms by (auto simp: scrollScoreboard_def split: sum.splits)

lemma flushScoreboard_Inr:
  assumes "flushScoreboard s = Inr (s', out)"
  shows "\<exists>board. updateRankings s = Inr s' \<and> printScoreboard s' = Inr board
      \<and> out = ''[Info]Flush scoreboard.'' # board"
  using assms by (auto simp: flushScoreboard_def split: sum.splits)

lemma teamAt_unfreeze [simp]:
  "teamAt (s\<lparr>isFrozen := x, frozenProblems := y\<rparr>) = teamAt s"
  by (simp add: teamAt_def fun_eq_iff)

lemma scrollLoop_regInv:
  assumes "scrollLoop s rc = Inr (s', rc')" and "regInv s"
  shows "regInv s'"
  using scrollLoop_rule [OF assms(1), where I = "\<lambda>s rc. regInv s"] assms(2) revealStep_regInv
  by blast

lemma scrollLoop_wrongOK:
  assumes "scrollLoop s rc = Inr (s', rc')" and "allTeams wrongOK s"
  shows "allTeams wrongOK s'"
  using scrollLoop_rule [OF assms(1), where I = "\<lambda>s rc. allTeams wrongOK s"] assms(2)
    revealStep_wrongOK
  by blast

lemma scrollLoop_boardInv:
  assumes "scrollLoop s rc = Inr (s', rc')" and "boardInv s"
  shows "boardInv s'"
proof -
  have "boardInv s' \<and> fst (findUnfreeze s') = []"
  proof (rule scrollLoop_rule [OF assms(1), where I = "\<lambda>s rc. boardInv s"])
    show "boardInv s" by fact
  next
    fix s rc t p s1 rc1
    assume "boardInv s" "findUnfreeze s = (t, p)" "t \<noteq> []" "revealStep s t p rc = Inr (s1, rc1)"
    then show "boardInv s1"
      using findUnfreeze_mem [of s t p] revealStep_boardInv [of s p t rc s1 rc1] by simp
  qed
  then show ?thesis ..
qed

lemma scrollScoreboard_inv:
  assumes "scrollScoreboard s = Inr (s', out)"
  shows "regInv s \<Longrightarrow> regInv s'"
    and "allTeams wrongOK s \<Longrightarrow> allTeams wrongOK s'"
    and "boardInv s \<Longrightarrow> boardInv s'"
proof -
  show "regInv s \<Longrightarrow> regInv s'"
  proof (cases "isFrozen s")
    case False
    assume "regInv s"
    with assms False show ?thesis by (simp add: scrollScoreboard_def)
  next
    case True
    assume r: "regInv s"
    from scrollScoreboard_Inr [OF assms True] obtain s1 s2 rc where
      ur: "updateRankings s = Inr s1" and sl: "scrollLoop s1 [] = Inr (s2, rc)"
      and s': "s' = s2\<lparr>isFrozen := False, frozenProblems := (\<lambda>_. [])\<rparr>" by blast
    from scrollLoop_regInv [OF sl updateRankings_inv(1) [OF ur r]]
    show ?thesis by (simp add: s' regInv_def)
  qed
  show "allTeams wrongOK s \<Longrightarrow> allTeams wrongOK s'"
  proof (cases "isFrozen s")
    case False
    assume "allTeams wrongOK s"
    with assms False show ?thesis by (simp add: scrollScoreboard_def)
  next
    case True
    assume r: "allTeams wrongOK s"
    from scrollScoreboard_Inr [OF assms True] obtain s1 s2 rc where
      ur: "updateRankings s = Inr s1" and sl: "scrollLoop s1 [] = Inr (s2, rc)"
      and s': "s' = s2\<lparr>isFrozen := False, frozenProblems := (\<lambda>_. [])\<rparr>" by blast
    from scrollLoop_wrongOK [OF sl updateRankings_inv(2) [OF ur r]]
    show ?thesis by (simp add: s' allTeams_def)
  qed
  show "boardInv s \<Longrightarrow> boardInv s'"
  proof (cases "isFrozen s")
    case False
    assume "boardInv s"
    with assms False show ?thesis by (simp add: scrollScoreboard_def)
  next
    case True
    assume r: "boardInv s"
    from scrollScoreboard_Inr [OF assms True] obtain s1 s2 rc where
      ur: "updateRankings s = Inr s1" and sl: "scrollLoop s1 [] = Inr (s2, rc)"
      and s': "s' = s2\<lparr>isFrozen := False, frozenProblems := (\<lambda>_. [])\<rparr>" by blast
    from scrollLoop_boardInv [OF sl updateRankings_inv(3) [OF ur r]]
    show ?thesis
      by (simp add: s' boardInv_def allTeams_def frozenOK_def startOK_def slotsOK_def)
  qed
qed

subsection \<open>Runs\<close>

lemma step_cases:
  assumes "step c s = Inr (s', out)"
  obtains (add) n where "c = ADDTEAM n" and "s' = fst (addTeam n s)"
    | (start) d k where "c = START d k" and "s' = fst (startCompetition d k s)"
    | (submit) p t statusStr tm where "c = SUBMIT p t statusStr tm"
        and "submitProblem p t statusStr tm s = Inr s'"
    | (flush) "c = FLUSH" and "updateRankings s = Inr s'"
    | (freeze) "c = FREEZE" and "s' = fst (freezeScoreboard s)"
    | (scroll) "c = SCROLL" and "scrollScoreboard s = Inr (s', out)"
    | (same) "s' = s" and "\<forall>p t statusStr tm. c \<noteq> SUBMIT p t statusStr tm"
        and "\<forall>d k. c \<noteq> START d k"
  using assms
  by (cases c) (auto split: sum.splits dest!: flushScoreboard_Inr)

lemma scrollScoreboard_started:
  assumes "scrollScoreboard s = Inr (s', out)"
  shows "competitionStarted s' = competitionStarted s"
proof (cases "isFrozen s")
  case False
  with assms show ?thesis by (simp add: scrollScoreboard_def)
next
  case True
  from scrollScoreboard_Inr [OF assms True] obtain s1 s2 rc where
    ur: "updateRankings s = Inr s1" and sl: "scrollLoop s1 [] = Inr (s2, rc)"
    and s': "s' = s2\<lparr>isFrozen := False, frozenProblems := (\<lambda>_. [])\<rparr>" by blast
  have "competitionStarted s2 = competitionStarted s1 \<and> fst (findUnfreeze s2) = []"
    by (rule scrollLoop_rule [OF sl, where I = "\<lambda>x rc. competitionStarted x = competitionStarted s1"])
      (auto dest!: revealStep_Inr)
  with updateRankings_fields [OF ur] show ?thesis by (simp add: s')
qed

lemma step_started:
  assumes "step c s = Inr (s', out)"
  shows "competitionStarted s' \<longleftrightarrow> competitionStarted s \<or> (\<exists>d k. c = START d k)"
  using assms
proof (cases rule: step_cases)
  case (add n)
  then show ?thesis by (auto simp: addTeam_def)
next
  case (start d k)
  then show ?thesis by (cases "competitionStarted s") (auto simp: startCompetition_fields)
next
  case (submit p t statusStr tm)
  then show ?thesis by (auto dest!: submitProblem_Inr)
next
  case flush
  then show ?thesis by (auto dest!: updateRankings_fields)
next
  case freeze
  then show ?thesis by (auto simp: freezeScoreboard_def)
next
  case scroll
  then show ?thesis by (auto dest!: scrollScoreboard_started)
next
  case same
  then show ?thesis by auto
qed

lemma step_regInv:
  assumes "step c s = Inr (s', out)" and "regInv s"
  shows "regInv s'"
  using assms(1)
proof (cases rule: step_cases)
  case (submit p t statusStr tm)
  from submitProblem_regInv [OF assms(2) submit(2)] show ?thesis .
next
  case flush
  from updateRankings_inv(1) [OF flush(2) assms(2)] show ?thesis .
next
  case scroll
  from scrollScoreboard_inv(1) [OF scroll(2) assms(2)] show ?thesis .
qed (use assms(2) in \<open>simp_all add: addTeam_regInv startCompetition_regInv freeze_inv(1)\<close>)

lemma step_wrongOK:
  assumes "step c s = Inr (s', out)" and "allTeams wrongOK s"
  shows "allTeams wrongOK s'"
  using assms(1)
proof (cases rule: step_cases)
  case (submit p t statusStr tm)
  from submitProblem_wrongOK [OF assms(2) submit(2)] show ?thesis .
next
  case flush
  from updateRankings_inv(2) [OF flush(2) assms(2)] show ?thesis .
next
  case scroll
  from scrollScoreboard_inv(2) [OF scroll(2) assms(2)] show ?thesis .
qed (use assms(2) in \<open>simp_all add: addTeam_wrongOK startCompetition_wrongOK freeze_inv(2)\<close>)

lemma step_boardInv:
  assumes "step c s = Inr (s', out)" and "boardInv s" and "regInv s"
    and "protocol (competitionStarted s) [c]"
  shows "boardInv s'"
  using assms(1)
proof (cases rule: step_cases)
  case (submit p t statusStr tm)
  with assms(4) have "competitionStarted s" by simp
  from submitProblem_boardInv [OF assms(2) this submit(2)] show ?thesis .
next
  case flush
  from updateRankings_inv(3) [OF flush(2) assms(2)] show ?thesis .
next
  case scroll
  from scrollScoreboard_inv(3) [OF scroll(2) assms(2)] show ?thesis .
qed (use assms(2,3) in \<open>simp_all add: addTeam_boardInv startCompetition_boardInv freeze_inv(3)\<close>)

lemma protocol_Cons:
  "protocol st (c # cs) \<Longrightarrow> c \<noteq> END \<Longrightarrow>
     protocol st [c] \<and> protocol (st \<or> (\<exists>d k. c = START d k)) cs"
  by (cases c) auto

lemma run_regInv:
  assumes "run s cmds = Inr (s', out)" and "regInv s"
  shows "regInv s'"
  using assms
proof (induction cmds arbitrary: s out)
  case Nil
  then show ?case by simp
next
  case (Cons c cs)
  from Cons.prems(1) obtain s1 o1 where st: "step c s = Inr (s1, o1)"
    by (auto split: sum.splits)
  from step_regInv [OF st Cons.prems(2)] have r1: "regInv s1" .
  show ?case
  proof (cases "c = END")
    case True
    with Cons.prems(1) st r1 show ?thesis by simp
  next
    case False
    with Cons.prems(1) st obtain o2 where "run s1 cs = Inr (s', o2)"
      by (auto split: sum.splits)
    from Cons.IH [OF this r1] show ?thesis .
  qed
qed

lemma run_wrongOK:
  assumes "run s cmds = Inr (s', out)" and "allTeams wrongOK s"
  shows "allTeams wrongOK s'"
  using assms
proof (induction cmds arbitrary: s out)
  case Nil
  then show ?case by simp
next
  case (Cons c cs)
  from Cons.prems(1) obtain s1 o1 where st: "step c s = Inr (s1, o1)"
    by (auto split: sum.splits)
  from step_wrongOK [OF st Cons.prems(2)] have r1: "allTeams wrongOK s1" .
  show ?case
  proof (cases "c = END")
    case True
    with Cons.prems(1) st r1 show ?thesis by simp
  next
    case False
    with Cons.prems(1) st obtain o2 where "run s1 cs = Inr (s', o2)"
      by (auto split: sum.splits)
    from Cons.IH [OF this r1] show ?thesis .
  qed
qed

lemma run_boardInv:
  assumes "run s cmds = Inr (s', out)" and "boardInv s" and "regInv s"
    and "protocol (competitionStarted s) cmds"
  shows "boardInv s'"
  using assms
proof (induction cmds arbitrary: s out)
  case Nil
  then show ?case by simp
next
  case (Cons c cs)
  from Cons.prems(1) obtain s1 o1 where st: "step c s = Inr (s1, o1)"
    by (auto split: sum.splits)
  show ?case
  proof (cases "c = END")
    case True
    with Cons.prems(1,2) st show ?thesis by simp
  next
    case False
    from protocol_Cons [OF Cons.prems(4) False]
    have p1: "protocol (competitionStarted s) [c]"
      and p2: "protocol (competitionStarted s1) cs"
      by (simp_all add: step_started [OF st])
    from step_boardInv [OF st Cons.prems(2,3) p1] have b1: "boardInv s1" .
    from step_regInv [OF st Cons.prems(3)] have r1: "regInv s1" .
    from False Cons.prems(1) st obtain o2 where "run s1 cs = Inr (s', o2)"
      by (auto split: sum.splits)
    from Cons.IH [OF this b1 r1 p2] show ?thesis .
  qed
qed

subsection \<open>Concrete boards\<close>

lemma genProblemNames_2: "genProblemNames 2 = [''A'', ''B'']"
  by code_simp

lemma startedBoard_eq:
  "startedBoard =
     \<lparr>competitionStarted = True, isFrozen = False, durationTime = 300, problemCount = 2,
      problemNames = [''A'', ''B''],
      teams = [(''t'', \<lparr>name = ''t'', solvedCount = 0, penaltyTime = 0,
                       wrongSubmissions = [(''A'', 0), (''B'', 0)],
                       firstAcceptTime = [(''A'', 0), (''B'', 0)],
                       isSolved = [(''A'', False), (''B'', False)],
                       totalSubmissions = [(''A'', 0), (''B'', 0)],
                       frozenSubmissions = [(''A'', 0), (''B'', 0)]\<rparr>)],
      submissions = [], teamOrder = [''t''], frozenProblems = (\<lambda>_. [])\<rparr>"
  by (simp add: startedBoard_def startCompetition_def addTeam_def init_def newTeam_def
        genProblemNames_2 initProblem_def)

lemma frozenBoard_eq: "frozenBoard = startedBoard\<lparr>isFrozen := True\<rparr>"
  by (simp add: frozenBoard_def freezeScoreboard_def startedBoard_eq)

lemma teamAt_startedBoard:
  "teamAt startedBoard ''t'' =
     \<lparr>name = ''t'', solvedCount = 0, penaltyTime = 0,
      wrongSubmissions = [(''A'', 0), (''B'', 0)], firstAcceptTime = [(''A'', 0), (''B'', 0)],
      isSolved = [(''A'', False), (''B'', False)], totalSubmissions = [(''A'', 0), (''B'', 0)],
      frozenSubmissions = [(''A'', 0), (''B'', 0)]\<rparr>"
  by (simp add: startedBoard_eq teamAt_def idx_def)

lemma wrongBoard_run:
  "submitProblem ''A'' ''t'' ''Wrong'' 7 startedBoard = Inr wrongBoard
   \<and> submissions wrongBoard
       = [\<lparr>teamName = ''t'', problemName = ''A'', status = WRONG_ANSWER, time = 7\<rparr>]
   \<and> map_of (teams wrongBoard) ''t'' \<noteq> None"
  by (simp add: wrongBoard_def submitProblem_def Let_def teamAt_startedBoard idx_def
        touch_def stringToStatus_def update_conv')
    (simp add: startedBoard_eq)

lemma showInt_7: "showInt 7 = ''7''"
  by code_simp

subsection \<open>Failing operations\<close>

text \<open>
  Claim C8. An operation that fails leaves the whole state as it was: \<^verbatim>\<open>addTeam\<close> after
  the start or for a name that is already a key of \<^verbatim>\<open>teams\<close>, \<^verbatim>\<open>startCompetition\<close> after
  the start, \<^verbatim>\<open>freezeScoreboard\<close> on a frozen board and \<^verbatim>\<open>scrollScoreboard\<close> on a board
  that is not frozen each return the state they were given, with the one line that
  names the error.
\<close>

theorem failed_operations_keep_state:
  "(competitionStarted s \<longrightarrow>
      addTeam n s = (s, [''[Error]Add failed: competition has started.'']))
   \<and> (\<not> competitionStarted s \<and> map_of (teams s) n \<noteq> None \<longrightarrow>
      addTeam n s = (s, [''[Error]Add failed: duplicated team name.'']))
   \<and> (competitionStarted s \<longrightarrow>
      startCompetition d k s = (s, [''[Error]Start failed: competition has started.'']))
   \<and> (isFrozen s \<longrightarrow>
      freezeScoreboard s = (s, [''[Error]Freeze failed: scoreboard has been frozen.'']))
   \<and> (\<not> isFrozen s \<longrightarrow>
      scrollScoreboard s = Inr (s, [''[Error]Scroll failed: scoreboard has not been frozen.'']))"
  by (simp add: addTeam_def startCompetition_def freezeScoreboard_def scrollScoreboard_def)

theorem failed_operations_keep_state_witness:
  "competitionStarted frozenBoard \<and> isFrozen frozenBoard
   \<and> addTeam ''u'' frozenBoard = (frozenBoard, [''[Error]Add failed: competition has started.''])
   \<and> startCompetition 5 1 frozenBoard
       = (frozenBoard, [''[Error]Start failed: competition has started.''])
   \<and> freezeScoreboard frozenBoard
       = (frozenBoard, [''[Error]Freeze failed: scoreboard has been frozen.''])
   \<and> \<not> competitionStarted (fst (addTeam ''t'' init))
   \<and> map_of (teams (fst (addTeam ''t'' init))) ''t'' \<noteq> None
   \<and> addTeam ''t'' (fst (addTeam ''t'' init))
       = (fst (addTeam ''t'' init), [''[Error]Add failed: duplicated team name.''])
   \<and> \<not> isFrozen startedBoard
   \<and> scrollScoreboard startedBoard
       = Inr (startedBoard, [''[Error]Scroll failed: scoreboard has not been frozen.''])"
proof -
  have a: "competitionStarted frozenBoard \<and> isFrozen frozenBoard"
    by (simp add: frozenBoard_def freezeScoreboard_def startedBoard_eq)
  have b: "\<not> competitionStarted (fst (addTeam ''t'' init))
           \<and> map_of (teams (fst (addTeam ''t'' init))) ''t'' \<noteq> None"
    by (simp add: addTeam_def init_def)
  have c: "\<not> isFrozen startedBoard"
    by (simp add: startedBoard_eq)
  show ?thesis
    using a b c
      failed_operations_keep_state [of frozenBoard "''u''" 5 1]
      failed_operations_keep_state [of "fst (addTeam ''t'' init)" "''t''"]
      failed_operations_keep_state [of startedBoard]
    by simp
qed

subsection \<open>Queries\<close>

lemma find_append:
  "find P (xs @ ys) = (case find P xs of Some x \<Rightarrow> Some x | None \<Rightarrow> find P ys)"
  by (induction xs) auto

lemma find_rev_newest: "find P (rev xs) = newest P xs"
  by (induction xs) (auto simp: find_append split: option.splits)

text \<open>
  Claim C10. For a team that is a key of \<^verbatim>\<open>teams\<close>, a status word of the query that is
  neither \<^verbatim>\<open>ALL\<close> nor one of the four status names gives the answer the word
  \<^verbatim>\<open>Wrong_Answer\<close> gives: after the information line, the newest submission of the log
  by that team, on that problem unless the problem word is \<^verbatim>\<open>ALL\<close>, whose status
  is \<^verbatim>\<open>WRONG_ANSWER\<close>, or the line that there is none.
\<close>

theorem querySubmission_unknown_status:
  assumes "statusStr \<notin> {''ALL'', ''Accepted'', ''Wrong_Answer'', ''Runtime_Error'',
                          ''Time_Limit_Exceed''}"
    and "map_of (teams s) t \<noteq> None"
  shows "querySubmission t p statusStr s = querySubmission t p ''Wrong_Answer'' s
    \<and> querySubmission t p statusStr s =
        ''[Info]Complete query submission.'' #
        (case newest (\<lambda>sub. teamName sub = t \<and> (p = ''ALL'' \<or> problemName sub = p)
                              \<and> status sub = WRONG_ANSWER) (submissions s) of
           None \<Rightarrow> [''Cannot find any submission.'']
         | Some sub \<Rightarrow> [teamName sub @ '' '' @ problemName sub @ '' ''
                          @ statusToString (status sub) @ '' '' @ showInt (time sub)])"
proof -
  have st: "stringToStatus statusStr = WRONG_ANSWER"
    using assms(1) by (simp add: stringToStatus_def)
  have lm: "lastMatch t p statusStr s =
      newest (\<lambda>sub. teamName sub = t \<and> (p = ''ALL'' \<or> problemName sub = p)
                              \<and> status sub = WRONG_ANSWER) (submissions s)"
    using assms(1) by (simp add: lastMatch_def st find_rev_newest)
  have lm': "lastMatch t p ''Wrong_Answer'' s = lastMatch t p statusStr s"
    using assms(1) by (simp add: lastMatch_def st stringToStatus_def)
  show ?thesis
    using assms(2) by (simp add: querySubmission_def lm' lm)
qed

theorem querySubmission_unknown_status_witness:
  "''Wrong'' \<notin> {''ALL'', ''Accepted'', ''Wrong_Answer'', ''Runtime_Error'', ''Time_Limit_Exceed''}
   \<and> map_of (teams wrongBoard) ''t'' \<noteq> None
   \<and> querySubmission ''t'' ''A'' ''Wrong'' wrongBoard
       = [''[Info]Complete query submission.'', ''t A Wrong_Answer 7'']"
proof -
  have h1: "''Wrong'' \<notin> {''ALL'', ''Accepted'', ''Wrong_Answer'', ''Runtime_Error'',
                         ''Time_Limit_Exceed''}"
    by simp
  have h2: "map_of (teams wrongBoard) ''t'' \<noteq> None"
    using wrongBoard_run by simp
  show ?thesis
    using h1 h2 querySubmission_unknown_status [OF h1 h2, of "''A''", THEN conjunct2]
      wrongBoard_run
    by (simp add: showInt_7)
qed

subsection \<open>Submissions on a frozen board or a solved problem\<close>

text \<open>
  Claim C4. A submission by team \<open>t\<close> on problem \<open>p\<close> that arrives while the board is
  frozen, or for a problem the team has solved, never fails, appends to the log and
  leaves every other team, the ranking and the team's \<^verbatim>\<open>solvedCount\<close>,
  \<^verbatim>\<open>penaltyTime\<close>, \<^verbatim>\<open>wrongSubmissions\<close>, \<^verbatim>\<open>firstAcceptTime\<close> and solved flags as they
  were; \<^verbatim>\<open>totalSubmissions[p]\<close> goes up by one. If the problem is solved nothing
  else changes. If it is not solved (and the board is frozen) \<^verbatim>\<open>frozenSubmissions[p]\<close>
  goes up by one as well, and \<open>p\<close> enters the team's frozen set exactly when the
  status is \<^verbatim>\<open>ACCEPTED\<close>.
\<close>

theorem submit_while_frozen:
  assumes "isFrozen s \<or> idx (isSolved (teamAt s t)) p False"
  shows "\<exists>s'. submitProblem p t statusStr tm s = Inr s'
    \<and> submissions s' = submissions s @ [\<lparr>teamName = t, problemName = p,
                                          status = stringToStatus statusStr, time = tm\<rparr>]
    \<and> teamOrder s' = teamOrder s \<and> isFrozen s' = isFrozen s
    \<and> (\<forall>u. u \<noteq> t \<longrightarrow> map_of (teams s') u = map_of (teams s) u)
    \<and> (\<forall>u. u \<noteq> t \<longrightarrow> frozenProblems s' u = frozenProblems s u)
    \<and> solvedCount (teamAt s' t) = solvedCount (teamAt s t)
    \<and> penaltyTime (teamAt s' t) = penaltyTime (teamAt s t)
    \<and> wrongSubmissions (teamAt s' t) = wrongSubmissions (teamAt s t)
    \<and> firstAcceptTime (teamAt s' t) = firstAcceptTime (teamAt s t)
    \<and> (\<forall>q. idx (isSolved (teamAt s' t)) q False = idx (isSolved (teamAt s t)) q False)
    \<and> (\<forall>q. idx (totalSubmissions (teamAt s' t)) q 0 =
             idx (totalSubmissions (teamAt s t)) q 0 + (if q = p then 1 else 0))
    \<and> (if idx (isSolved (teamAt s t)) p False
        then frozenSubmissions (teamAt s' t) = frozenSubmissions (teamAt s t)
           \<and> frozenProblems s' t = frozenProblems s t
        else (\<forall>q. idx (frozenSubmissions (teamAt s' t)) q 0 =
                   idx (frozenSubmissions (teamAt s t)) q 0 + (if q = p then 1 else 0))
           \<and> set (frozenProblems s' t) =
               (if stringToStatus statusStr = ACCEPTED then insert p (set (frozenProblems s t))
                else set (frozenProblems s t)))"
  using assms
  by (auto simp: submitProblem_def Let_def teamAt_def idx_update idx_incr idx_touch update_conv'
        setInsert_def set_insort_key touch_present split: option.splits)

theorem submit_while_frozen_witness:
  "isFrozen frozenBoard
   \<and> (\<exists>s'. submitProblem ''A'' ''t'' ''Accepted'' 150 frozenBoard = Inr s'
         \<and> \<not> idx (isSolved (teamAt s' ''t'')) ''A'' False
         \<and> idx (frozenSubmissions (teamAt s' ''t'')) ''A'' 0 = 1
         \<and> idx (totalSubmissions (teamAt s' ''t'')) ''A'' 0 = 1
         \<and> set (frozenProblems s' ''t'') = {''A''}
         \<and> solvedCount (teamAt s' ''t'') = 0 \<and> penaltyTime (teamAt s' ''t'') = 0)
   \<and> \<not> isFrozen sampleBoard \<and> idx (isSolved (teamAt sampleBoard ''t'')) ''A'' False
   \<and> (\<exists>s'. submitProblem ''A'' ''t'' ''Wrong_Answer'' 200 sampleBoard = Inr s'
         \<and> idx (totalSubmissions (teamAt s' ''t'')) ''A'' 0 =
             idx (totalSubmissions (teamAt sampleBoard ''t'')) ''A'' 0 + 1
         \<and> idx (wrongSubmissions (teamAt s' ''t'')) ''A'' 0 =
             idx (wrongSubmissions (teamAt sampleBoard ''t'')) ''A'' 0
         \<and> frozenSubmissions (teamAt s' ''t'') = frozenSubmissions (teamAt sampleBoard ''t'')
         \<and> frozenProblems s' ''t'' = frozenProblems sampleBoard ''t''
         \<and> solvedCount (teamAt s' ''t'') = solvedCount (teamAt sampleBoard ''t'')
         \<and> penaltyTime (teamAt s' ''t'') = penaltyTime (teamAt sampleBoard ''t''))"
proof -
  have fr: "isFrozen frozenBoard"
    by (simp add: frozenBoard_eq)
  then have h: "isFrozen frozenBoard \<or> idx (isSolved (teamAt frozenBoard ''t'')) ''A'' False"
    by simp
  have T: "teamAt frozenBoard ''t'' = teamAt startedBoard ''t''"
    by (simp add: frozenBoard_eq teamAt_def)
  have fp: "frozenProblems frozenBoard ''t'' = []"
    by (simp add: frozenBoard_eq startedBoard_eq)
  from submit_while_frozen [OF h, of "''Accepted''" 150] fr
  have a: "\<exists>s'. submitProblem ''A'' ''t'' ''Accepted'' 150 frozenBoard = Inr s'
         \<and> \<not> idx (isSolved (teamAt s' ''t'')) ''A'' False
         \<and> idx (frozenSubmissions (teamAt s' ''t'')) ''A'' 0 = 1
         \<and> idx (totalSubmissions (teamAt s' ''t'')) ''A'' 0 = 1
         \<and> set (frozenProblems s' ''t'') = {''A''}
         \<and> solvedCount (teamAt s' ''t'') = 0 \<and> penaltyTime (teamAt s' ''t'') = 0"
    by (auto simp: T teamAt_startedBoard fp stringToStatus_def idx_def [of "[(''A'', _), _]"])
  have nf: "\<not> isFrozen sampleBoard" by code_simp
  have sv: "idx (isSolved (teamAt sampleBoard ''t'')) ''A'' False" by code_simp
  from sv have h2: "isFrozen sampleBoard \<or> idx (isSolved (teamAt sampleBoard ''t'')) ''A'' False"
    by simp
  from submit_while_frozen [OF h2, of "''Wrong_Answer''" 200] nf sv
  have b: "\<exists>s'. submitProblem ''A'' ''t'' ''Wrong_Answer'' 200 sampleBoard = Inr s'
         \<and> idx (totalSubmissions (teamAt s' ''t'')) ''A'' 0 =
             idx (totalSubmissions (teamAt sampleBoard ''t'')) ''A'' 0 + 1
         \<and> idx (wrongSubmissions (teamAt s' ''t'')) ''A'' 0 =
             idx (wrongSubmissions (teamAt sampleBoard ''t'')) ''A'' 0
         \<and> frozenSubmissions (teamAt s' ''t'') = frozenSubmissions (teamAt sampleBoard ''t'')
         \<and> frozenProblems s' ''t'' = frozenProblems sampleBoard ''t''
         \<and> solvedCount (teamAt s' ''t'') = solvedCount (teamAt sampleBoard ''t'')
         \<and> penaltyTime (teamAt s' ''t'') = penaltyTime (teamAt sampleBoard ''t'')"
    by auto
  from fr a nf sv b show ?thesis by (intro conjI)
qed

subsection \<open>Scores never decrease\<close>

lemma teamsLe_refl [simp]: "teamsLe s s"
  by (simp add: teamsLe_def)

















subsection \<open>The ranking key\<close>

lemma collectTimes_ok:
  assumes "\<forall>p \<in> set (map fst (filter snd m)). map_of fat p \<noteq> None"
  shows "collectTimes fat m = Inr (map (\<lambda>p. idx fat p 0) (map fst (filter snd m)))"
  using assms by (induction m) (auto simp: at_def idx_def split: option.splits)

lemma getSolveTimes_ok: "teamOK T \<Longrightarrow> getSolveTimes T = Inr (solveTimes T)"
  by (simp add: getSolveTimes_def solveTimes_def teamOK_def solvedProblems_def collectTimes_ok)

lemma length_solveTimes: "teamOK T \<Longrightarrow> int (length (solveTimes T)) = solvedCount T"
  by (simp add: solveTimes_def teamOK_def)

lemma firstDiff_same_length:
  "length xs = length ys \<Longrightarrow>
     firstDiff xs ys = (if xs = ys then None else Some (xs < ys))"
  by (induction xs ys rule: list_induct2) auto



lemma rankBefore_key:
  assumes "teamOK (teamAt s a)" and "teamOK (teamAt s b)"
  shows "rankBefore s a b = Inr (rankKey s a < rankKey s b)"
proof (cases "solvedCount (teamAt s a) = solvedCount (teamAt s b)")
  case False
  then show ?thesis by (auto simp: rankBefore_def rankKey_def Let_def less_prod_def)
next
  case True
  with assms have len: "length (solveTimes (teamAt s a)) = length (solveTimes (teamAt s b))"
    using length_solveTimes [of "teamAt s a"] length_solveTimes [of "teamAt s b"] by simp
  show ?thesis
    using True
    by (auto simp: rankBefore_def rankKey_def Let_def less_prod_def getSolveTimes_ok assms
          firstDiff_same_length [OF len])
qed

lemma rankKey_inj: "rankKey s a = rankKey s b \<Longrightarrow> a = b"
  by (simp add: rankKey_def)

lemma insertBy_key:
  assumes "\<And>y. y \<in> set ys \<Longrightarrow> lt x y = Inr (k x < k y)"
    and "\<And>y. y \<in> set ys \<Longrightarrow> k x \<noteq> k y"
  shows "insertBy lt x ys = Inr (insort_key k x ys)"
  using assms by (induction ys) (auto simp: less_le)

lemma std_sort_key:
  fixes k :: "'a \<Rightarrow> 'b::linorder"
  assumes "\<And>x y. x \<in> set xs \<Longrightarrow> y \<in> set xs \<Longrightarrow> lt x y = Inr (k x < k y)"
    and "inj_on k (set xs)" and "distinct xs"
  shows "std_sort lt xs = Inr (sort_key k xs)"
  using assms
proof (induction xs)
  case Nil
  then show ?case by simp
next
  case (Cons x xs)
  have IH: "std_sort lt xs = Inr (sort_key k xs)"
    by (rule Cons.IH) (use Cons.prems in \<open>auto simp: inj_on_def\<close>)
  have "insertBy lt x (sort_key k xs) = Inr (insort_key k x (sort_key k xs))"
  proof (rule insertBy_key)
    fix y assume "y \<in> set (sort_key k xs)"
    then have y: "y \<in> set xs" by simp
    then show "lt x y = Inr (k x < k y)" using Cons.prems(1) by simp
    from y Cons.prems(2,3) show "k x \<noteq> k y" by (auto simp: inj_on_def)
  qed
  with IH show ?case by simp
qed

subsection \<open>The ranking is sorted\<close>

lemma boardInv_teamOK: "boardInv s \<Longrightarrow> teamOK (teamAt s a)"
  by (rule allTeams_teamAt) (simp_all add: boardInv_def)

lemma updateRankings_key:
  assumes "boardInv s" and "regInv s"
  shows "updateRankings s = Inr (s\<lparr>teamOrder := sort_key (rankKey s) (teamOrder s)\<rparr>)"
proof -
  have "std_sort (rankBefore s) (teamOrder s) = Inr (sort_key (rankKey s) (teamOrder s))"
  proof (rule std_sort_key)
    show "rankBefore s x y = Inr (rankKey s x < rankKey s y)" for x y
      by (rule rankBefore_key) (simp_all add: boardInv_teamOK assms(1))
    show "inj_on (rankKey s) (set (teamOrder s))"
      by (rule inj_onI) (rule rankKey_inj)
    show "distinct (teamOrder s)" using assms(2) by (simp add: regInv_def)
  qed
  then show ?thesis by (simp add: updateRankings_def)
qed



lemma scrollLoop_order:
  assumes "scrollLoop s rc = Inr (s', rc')"
  shows "mset (teamOrder s') = mset (teamOrder s)"
proof -
  have "mset (teamOrder s') = mset (teamOrder s) \<and> fst (findUnfreeze s') = []"
    by (rule scrollLoop_rule [OF assms, where I = "\<lambda>x rc. mset (teamOrder x) = mset (teamOrder s)"])
      (auto dest!: revealStep_Inr)
  then show ?thesis ..
qed

text \<open>The ranking holds the names whose \<^verbatim>\<open>ADDTEAM\<close> succeeded, each once: a step adds the
  name of a successful \<^verbatim>\<open>ADDTEAM\<close> and otherwise only permutes.\<close>

lemma scrollScoreboard_order:
  assumes "scrollScoreboard s = Inr (s', out)"
  shows "mset (teamOrder s') = mset (teamOrder s)"
proof (cases "isFrozen s")
  case False
  with assms show ?thesis by (simp add: scrollScoreboard_def)
next
  case True
  from scrollScoreboard_Inr [OF assms True] obtain s1 s2 rc where
    ur: "updateRankings s = Inr s1" and sl: "scrollLoop s1 [] = Inr (s2, rc)"
    and s': "s' = s2\<lparr>isFrozen := False, frozenProblems := (\<lambda>_. [])\<rparr>" by blast
  from updateRankings_fields [OF ur] scrollLoop_order [OF sl]
  show ?thesis by (simp add: s')
qed

lemma step_teamOrder:
  assumes "step c s = Inr (s', out)"
  shows "mset (teamOrder s') =
     (case c of
        ADDTEAM n \<Rightarrow>
          if \<not> competitionStarted s \<and> map_of (teams s) n = None
          then add_mset n (mset (teamOrder s)) else mset (teamOrder s)
      | _ \<Rightarrow> mset (teamOrder s))"
proof (cases c)
  case (ADDTEAM n)
  with assms show ?thesis by (auto simp: addTeam_def split: if_splits)
next
  case (START d k)
  with assms have s': "s' = fst (startCompetition d k s)" by auto
  show ?thesis
  proof (cases "competitionStarted s")
    case True
    with s' START show ?thesis by simp
  next
    case False
    from startCompetition_fields [OF False, of d k] s' START show ?thesis by simp
  qed
next
  case (SUBMIT p t statusStr tm)
  with assms obtain "submitProblem p t statusStr tm s = Inr s'"
    by (auto split: sum.splits)
  from submitProblem_Inr [OF this] SUBMIT show ?thesis by auto
next
  case FLUSH
  with assms obtain "updateRankings s = Inr s'"
    by (auto split: sum.splits dest!: flushScoreboard_Inr)
  from updateRankings_fields [OF this] FLUSH show ?thesis by simp
next
  case FREEZE
  with assms show ?thesis by (auto simp: freezeScoreboard_def split: if_splits)
next
  case SCROLL
  with assms have "scrollScoreboard s = Inr (s', out)" by (auto split: sum.splits)
  from scrollScoreboard_order [OF this] SCROLL show ?thesis by simp
next
  case (QUERY_RANKING t)
  with assms show ?thesis by auto
next
  case (QUERY_SUBMISSION t p f)
  with assms show ?thesis by auto
next
  case END
  with assms show ?thesis by auto
qed


lemma projr_eq: "\<not> isl r \<Longrightarrow> r = Inr (projr r)"
  by (cases r) auto




lemma revealStep_recompute_inv:
  assumes inv: "boardInv s" and reg: "regInv s" and mem: "p \<in> set (frozenProblems s t)"
    and rt: "revealTeam (submissions s) t p (teamAt s t) = Inr (T2, b)"
  shows "boardInv (s\<lparr>frozenProblems := (frozenProblems s)(t := removeAll p (frozenProblems s t)),
                    teams := AList.update t T2 (teams s)\<rparr>)
       \<and> regInv (s\<lparr>frozenProblems := (frozenProblems s)(t := removeAll p (frozenProblems s t)),
                    teams := AList.update t T2 (teams s)\<rparr>)"
proof -
  let ?s1 = "s\<lparr>frozenProblems := (frozenProblems s)(t := removeAll p (frozenProblems s t)),
                teams := AList.update t T2 (teams s)\<rparr>"
  have at: "teamAt ?s1 u = (if u = t then T2 else teamAt s u)" for u
    by (rule teamAt_teams) simp
  from inv have ok: "allTeams teamOK s" and fz: "frozenOK s" and so: "startOK s"
    and sl: "slotsOK s" by (simp_all add: boardInv_def)
  from fz mem have un: "map_of (isSolved (teamAt s t)) p \<noteq> Some True"
    and frozen: "isFrozen s"
    by (auto simp: frozenOK_def)
  from so mem have started: "competitionStarted s" by (auto simp: startOK_def)
  from revealTeam_teamOK [OF boardInv_teamOK [OF inv] un rt] have "teamOK T2" .
  with ok have a: "allTeams teamOK ?s1" by (rule allTeams_update) simp
  have b: "frozenOK ?s1"
    unfolding frozenOK_def
    using fz frozen revealTeam_flags [OF rt]
    by (auto simp: frozenOK_def at)
  have c: "startOK ?s1"
    using started by (simp add: startOK_def)
  have "hasSlots T2 q" if "hasSlots (teamAt s t) q" for q
    using that rt
    by (auto simp: revealTeam_def Let_def update_conv' hasSlots_def map_of_touch
             split: if_splits sum.splits dest!: markSolved_Inr)
  then have e: "slotsOK ?s1"
    using sl by (auto simp: slotsOK_def at)
  have r: "regInv ?s1"
    using reg by (auto simp: regInv_def keys_update)
  from a b c e r show ?thesis by (simp add: boardInv_def)
qed

subsection \<open>The ranking during a scroll\<close>


lemma rankKey_cong:
  assumes "solvedCount (teamAt s' a) = solvedCount (teamAt s a)"
    and "penaltyTime (teamAt s' a) = penaltyTime (teamAt s a)"
    and "isSolved (teamAt s' a) = isSolved (teamAt s a)"
    and "firstAcceptTime (teamAt s' a) = firstAcceptTime (teamAt s a)"
  shows "rankKey s' a = rankKey s a"
  using assms by (simp add: rankKey_def solveTimes_def solvedProblems_def)

lemma updateRankings_ranked:
  assumes "boardInv s" and "regInv s" and "updateRankings s = Inr s'"
  shows "ranked s'"
proof -
  from updateRankings_key [OF assms(1,2)] assms(3)
  have s': "s' = s\<lparr>teamOrder := sort_key (rankKey s) (teamOrder s)\<rparr>" by simp
  have "rankKey s' = rankKey s"
    by (rule ext, rule rankKey_cong) (simp_all add: s' teamAt_def)
  then show ?thesis by (simp add: ranked_def) (simp add: s')
qed

lemma head_keeps_first:
  fixes k k' :: "'a \<Rightarrow> 'b::linorder"
  assumes "sorted (map k (t # rest))" and "t \<notin> set rest"
    and "\<And>u. u \<noteq> t \<Longrightarrow> k' u = k u" and "k' t \<le> k t"
  shows "sort_key k' (t # rest) = t # rest"
proof (rule sort_key_id_if_sorted)
  have "k' u = k u" if "u \<in> set rest" for u
    using that assms(2) by (intro assms(3)) auto
  then have eq: "map k' rest = map k rest" by simp
  have "\<forall>u \<in> set rest. k' t \<le> k u"
    using assms(1,4) by (auto intro: order_trans)
  then have "sorted (map k (t # rest)) \<Longrightarrow> sorted (k' t # map k rest)"
    by simp
  with assms(1) show "sorted (map k' (t # rest))"
    by (simp only: list.map eq)
qed

lemma revealStep_order:
  assumes inv: "boardInv s" and reg: "regInv s" and rk: "ranked s"
    and mem: "p \<in> set (frozenProblems s t)"
    and rs: "revealStep s t p rc = Inr (s', rc')"
  shows "ranked s'
    \<and> rc' = noteChange (teamOrder s) (teamOrder s') t rc
    \<and> (teamOrder s \<noteq> teamOrder s' \<longrightarrow> (\<forall>rest. teamOrder s \<noteq> t # rest))"
proof -
  from revealStep_Inr [OF rs] obtain T2 b where
    rt: "revealTeam (submissions s) t p (teamAt s t) = Inr (T2, b)"
    and tm: "teams s' = AList.update t
        (T2\<lparr>frozenSubmissions := AList.update p 0 (frozenSubmissions T2)\<rparr>) (teams s)"
    and br: "if b then (\<exists>s2. updateRankings
                   (s\<lparr>frozenProblems := (frozenProblems s)(t := removeAll p (frozenProblems s t)),
                      teams := AList.update t T2 (teams s)\<rparr>) = Inr s2
                 \<and> teamOrder s' = teamOrder s2)
               \<and> rc' = noteChange (teamOrder s) (teamOrder s') t rc
        else teamOrder s' = teamOrder s \<and> rc' = rc" by blast
  let ?s1 = "s\<lparr>frozenProblems := (frozenProblems s)(t := removeAll p (frozenProblems s t)),
                teams := AList.update t T2 (teams s)\<rparr>"
  let ?T3 = "T2\<lparr>frozenSubmissions := AList.update p 0 (frozenSubmissions T2)\<rparr>"
  note at' = teamAt_teams [OF tm]
  have at1: "teamAt ?s1 u = (if u = t then T2 else teamAt s u)" for u
    by (rule teamAt_teams) simp
  have k1: "rankKey s' = rankKey ?s1"
    by (rule ext, rule rankKey_cong) (simp_all add: at' at1)
  show ?thesis
  proof (cases b)
    case False
    with br have ord: "teamOrder s' = teamOrder s" and rc: "rc' = rc" by simp_all
    from rt False have T2: "T2 = (teamAt s t)\<lparr>frozenSubmissions :=
        touch (frozenSubmissions (teamAt s t)) p 0\<rparr>"
      by (auto simp: revealTeam_def Let_def split: if_splits sum.splits)
    have "rankKey s' = rankKey s"
      by (rule ext, rule rankKey_cong) (simp_all add: at' T2)
    with rk ord rc show ?thesis by (simp add: ranked_def noteChange_def)
  next
    case True
    with br obtain s2 where ur: "updateRankings ?s1 = Inr s2"
      and ord: "teamOrder s' = teamOrder s2"
      and rc: "rc' = noteChange (teamOrder s) (teamOrder s') t rc" by auto
    from revealStep_recompute_inv [OF inv reg mem rt]
    have inv1: "boardInv ?s1" and reg1: "regInv ?s1" by simp_all
    from updateRankings_key [OF inv1 reg1] ur
    have o2: "teamOrder s2 = sort_key (rankKey ?s1) (teamOrder s)" by auto
    have r': "ranked s'"
      by (simp add: ranked_def k1 ord o2)
    have first: "teamOrder s' = teamOrder s" if hd: "teamOrder s = t # rest" for rest
    proof -
      from rt True obtain w where
        "solvedCount T2 = solvedCount (teamAt s t) + 1"
        by (auto simp: revealTeam_def Let_def split: if_splits sum.splits dest!: markSolved_Inr)
      then have lt: "rankKey ?s1 t \<le> rankKey s t"
        by (simp add: rankKey_def at1 less_eq_prod_def)
      have same: "rankKey ?s1 u = rankKey s u" if "u \<noteq> t" for u
        using that by (simp add: rankKey_def at1)
      from reg hd have "t \<notin> set rest" by (simp add: regInv_def)
      moreover from rk hd have "sorted (map (rankKey s) (t # rest))" by (simp add: ranked_def)
      ultimately have "sort_key (rankKey ?s1) (t # rest) = t # rest"
        using same lt by (intro head_keeps_first [of "rankKey s"]) auto
      with hd show ?thesis by (simp add: ord o2)
    qed
    from r' rc first show ?thesis by metis
  qed
qed

subsection \<open>Ranking changes of a scroll\<close>








lemma scroll_first_pass:
  assumes "boardInv s0" and "regInv s0" and "updateRankings s0 = Inr s1"
  shows "boardInv s1 \<and> regInv s1 \<and> ranked s1 \<and> set (teamOrder s1) = set (teamOrder s0)"
  using updateRankings_inv(3) [OF assms(3,1)] updateRankings_inv(1) [OF assms(3,2)]
    updateRankings_ranked [OF assms] updateRankings_fields [OF assms(3)]
  by (metis set_mset_mset)

lemma scroll_next_pass:
  assumes "boardInv s" and "regInv s" and "ranked s"
    and "findUnfreeze s = (t, p)" and "t \<noteq> []" and "revealStep s t p rc = Inr (s', rc')"
  shows "boardInv s' \<and> regInv s' \<and> ranked s' \<and> set (teamOrder s') = set (teamOrder s)"
proof -
  from findUnfreeze_mem [OF assms(4,5)] have mem: "p \<in> set (frozenProblems s t)" by simp
  from revealStep_Inr [OF assms(6)] have "mset (teamOrder s') = mset (teamOrder s)" by blast
  then have "set (teamOrder s') = set (teamOrder s)" by (metis set_mset_mset)
  with revealStep_boardInv [OF assms(1) mem assms(6)] revealStep_regInv [OF assms(2,6)]
    revealStep_order [OF assms(1-3) mem assms(6)]
  show ?thesis by simp
qed




subsection \<open>Penalty\<close>








subsection \<open>The rows of a flush\<close>

lemma cell_ok:
  assumes "hasSlots T p" and "wrongOK T"
  shows "cell T fz p = Inr (cellText T fz p)"
proof -
  from assms(1) obtain b w f where m: "map_of (isSolved T) p = Some b"
    "map_of (wrongSubmissions T) p = Some w" "map_of (frozenSubmissions T) p = Some f"
    by (auto simp: hasSlots_def)
  with assms(2) have "0 \<le> w" by (simp add: wrongOK_def)
  then have "w = 0 \<longleftrightarrow> \<not> 0 < w" by auto
  with m show ?thesis
    by (simp add: cell_def cellText_def at_def idx_def Let_def)
qed

lemma cells_ok:
  assumes "\<forall>p \<in> set ps. hasSlots T p" and "wrongOK T"
  shows "cells T fz ps = Inr (concat (map (\<lambda>p. '' '' @ cellText T fz p) ps))"
  using assms(1) by (induction ps) (simp_all add: cell_ok assms(2))

lemma printRows_ok:
  assumes "\<forall>t \<in> set ts. \<forall>p \<in> set (problemNames s). hasSlots (teamAt s t) p"
    and "allTeams wrongOK s"
  shows "printRows s i ts =
     Inr (map (\<lambda>(j, t). rowHead s j t
                @ concat (map (\<lambda>p. '' '' @ cellText (teamAt s t) (frozenProblems s t) p)
                              (problemNames s)))
              (enumerate i ts))"
  using assms(1)
proof (induction ts arbitrary: i)
  case Nil
  then show ?case by simp
next
  case (Cons t ts)
  from allTeams_teamAt [OF assms(2)] have "wrongOK (teamAt s t)" by simp
  with Cons show ?case by (simp add: cells_ok)
qed

text \<open>
  Claim C5, as the program has it. At a state that satisfies the invariants (every state
  of a run in which submissions come after the start), \<^verbatim>\<open>FLUSH\<close> does not fail, and
  after the information line it writes one row per team of the new ranking: the
  name, the rank, \<^verbatim>\<open>solvedCount\<close>, \<^verbatim>\<open>penaltyTime\<close> and, for every problem, a blank and
  the cell \<open>cellText\<close>. The frozen form of a cell is written exactly for the unsolved
  problems that are in the frozen set of the team, which a submission enters only when
  it is accepted (the test \<^verbatim>\<open>status == Status::ACCEPTED\<close>); an unsolved problem that only has
  other submissions from the freeze is written as \<^verbatim>\<open>.\<close> or \<^verbatim>\<open>-wrongCount\<close>.
\<close>

theorem flush_rows:
  assumes "boardInv s" and "regInv s" and "allTeams wrongOK s"
  shows "\<exists>s'. updateRankings s = Inr s'
    \<and> flushScoreboard s =
        Inr (s', ''[Info]Flush scoreboard.'' #
                 map (\<lambda>(i, t). t @ '' '' @ showNat (i + 1) @ '' ''
                                 @ showInt (solvedCount (teamAt s' t)) @ '' ''
                                 @ showInt (penaltyTime (teamAt s' t))
                                 @ concat (map (\<lambda>p. '' '' @ cellText (teamAt s' t)
                                                                (frozenProblems s' t) p)
                                               (problemNames s')))
                     (enumerate 0 (teamOrder s')))"
proof -
  from updateRankings_key [OF assms(1,2)] obtain s' where ur: "updateRankings s = Inr s'"
    by blast
  from updateRankings_inv [OF ur] assms
  have b: "boardInv s'" and w: "allTeams wrongOK s'" by simp_all
  from b have "\<forall>t \<in> set (teamOrder s'). \<forall>p \<in> set (problemNames s'). hasSlots (teamAt s' t) p"
    by (simp add: boardInv_def slotsOK_def)
  from printRows_ok [OF this w, of 0] ur show ?thesis
    by (simp add: flushScoreboard_def printScoreboard_def rowHead_def)
qed

lemma cell_run: "run init cellCmds = Inr (cellBoard, snd (projr (run init cellCmds)))"
proof -
  have "\<not> isl (run init cellCmds)" by code_simp
  from projr_eq [OF this] show ?thesis by (simp add: cellBoard_def)
qed

lemma cell_values:
  "map_sum id snd (flushScoreboard cellBoard)
     = Inr [''[Info]Flush scoreboard.'', ''a 1 1 2 -1/1 + -1'']"
  "frozenProblems cellBoard ''a'' = [''A'']"
  by code_simp+

theorem flush_rows_witness:
  "boardInv cellBoard \<and> regInv cellBoard \<and> allTeams wrongOK cellBoard
   \<and> frozenProblems cellBoard ''a'' = [''A'']
   \<and> map_sum id snd (flushScoreboard cellBoard)
       = Inr [''[Info]Flush scoreboard.'', ''a 1 1 2 -1/1 + -1'']
   \<and> (\<exists>s'. updateRankings cellBoard = Inr s' \<and> fst (projr (flushScoreboard cellBoard)) = s')"
proof -
  have p: "protocol (competitionStarted init) cellCmds"
    by (simp add: cellCmds_def init_def)
  from run_boardInv [OF cell_run init_inv(2,1) p] have b: "boardInv cellBoard" .
  from run_regInv [OF cell_run init_inv(1)] have r: "regInv cellBoard" .
  from run_wrongOK [OF cell_run init_inv(3)] have w: "allTeams wrongOK cellBoard" .
  from flush_rows [OF b r w] obtain s' where
    "updateRankings cellBoard = Inr s'" "fst (projr (flushScoreboard cellBoard)) = s'"
    by force
  with b r w cell_values show ?thesis by blast
qed

text \<open>
  Claim C5 as it is stated fails on \<open>pendingCmds\<close>: problem \<open>A\<close> of team \<open>a\<close> is not
  solved and has one submission from the freeze (\<^verbatim>\<open>frozenSubmissions\<close> is 1), a wrong
  answer, which did not put it into the frozen set; the flush writes the cell \<^verbatim>\<open>.\<close>,
  not \<^verbatim>\<open>0/1\<close>.
\<close>

theorem frozen_cell_counterexample:
  "map_sum id (\<lambda>(s, out). (idx (isSolved (teamAt s ''a'')) ''A'' False,
                            idx (frozenSubmissions (teamAt s ''a'')) ''A'' 0,
                            frozenProblems s ''a'', out))
     (run init pendingCmds)
   = Inr (False, 1, [],
          [''[Info]Add successfully.'', ''[Info]Competition starts.'', ''[Info]Freeze scoreboard.'',
           ''[Info]Flush scoreboard.'', ''a 1 0 0 .''])"
  by code_simp

subsection \<open>Reveal of an accepted submission; unregistered teams\<close>

lemma fold_firstAC:
  fixes t p :: string
  defines "f \<equiv> (\<lambda>sub firstACTime.
             if teamName sub = t \<and> problemName sub = p \<and> status sub = ACCEPTED \<and> time sub > 0
             then (if firstACTime = - 1 \<or> time sub < firstACTime then time sub else firstACTime)
             else firstACTime)"
  assumes "acc = - 1 \<or> 0 < acc"
  shows "fold f subs acc
         = (if acc = - 1
            then (if positiveAccepts subs t p = [] then - 1
                  else Min (set (positiveAccepts subs t p)))
            else Min (insert acc (set (positiveAccepts subs t p))))"
  using assms(2)
proof (induction subs arbitrary: acc)
  case Nil
  then show ?case by (simp add: positiveAccepts_def)
next
  case (Cons x xs)
  let ?m = "teamName x = t \<and> problemName x = p \<and> status x = ACCEPTED \<and> time x > 0"
  let ?S = "set (positiveAccepts xs t p)"
  have fin: "finite ?S" by simp
  have step: "fold f (x # xs) acc = fold f xs (f x acc)" by simp
  show ?case
  proof (cases ?m)
    case False
    then have "f x acc = acc" by (simp add: f_def)
    moreover from False have "positiveAccepts (x # xs) t p = positiveAccepts xs t p"
      by (auto simp: positiveAccepts_def)
    ultimately show ?thesis using Cons.IH [OF Cons.prems] by (simp only: step)
  next
    case True
    have pa: "positiveAccepts (x # xs) t p = time x # positiveAccepts xs t p"
      using True by (simp add: positiveAccepts_def)
    from True have px: "0 < time x" by simp
    show ?thesis
    proof (cases "acc = - 1")
      case A: True
      with True have fx: "f x acc = time x" by (simp add: f_def)
      from px have "time x = - 1 \<or> 0 < time x" by simp
      from Cons.IH [OF this] px show ?thesis
        by (simp only: step fx pa) (simp add: A)
    next
      case B: False
      with Cons.prems have pos: "0 < acc" by simp
      show ?thesis
      proof (cases "time x < acc")
        case lt: True
        with True have fx: "f x acc = time x" by (simp add: f_def)
        have "Min (insert (time x) ?S) = Min (insert acc (insert (time x) ?S))"
          using lt fin by (simp add: min_def)
        moreover from px have "time x = - 1 \<or> 0 < time x" by simp
        ultimately show ?thesis
          using Cons.IH [of "time x"] px B by (simp only: step fx pa) simp
      next
        case ge: False
        with True B have fx: "f x acc = acc" by (simp add: f_def)
        have "Min (insert acc (insert (time x) ?S)) = Min (insert (time x) (insert acc ?S))"
          by (simp add: insert_commute)
        also have "\<dots> = min (time x) (Min (insert acc ?S))"
          using fin by simp
        also have "\<dots> = Min (insert acc ?S)"
        proof -
          have "Min (insert acc ?S) \<le> acc" using fin by (intro Min_le) simp_all
          with ge have "Min (insert acc ?S) \<le> time x" by linarith
          then show ?thesis by (rule min_absorb2)
        qed
        finally have "Min (insert acc ?S) = Min (insert acc (insert (time x) ?S))" by simp
        then show ?thesis
          using Cons.IH [OF Cons.prems] B by (simp only: step fx pa) simp
      qed
    qed
  qed
qed

lemma firstACTimeOf_earliest:
  "firstACTimeOf subs t p
     = (if positiveAccepts subs t p = [] then - 1 else Min (set (positiveAccepts subs t p)))"
  using fold_firstAC [where acc = "- 1" and subs = subs and t = t and p = p]
  by (simp add: firstACTimeOf_def)

text \<open>
  What a reveal does, for every state: with \<^verbatim>\<open>frozenSubmissions[p]\<close> positive and an
  accepted submission of the team on the problem at a time above zero anywhere in the
  log, the problem is marked solved at the least such time; otherwise nothing but the
  map \<^verbatim>\<open>frozenSubmissions\<close> (which \<open>revealStep\<close> then sets to zero at \<open>p\<close>) can differ
  from the team before.
\<close>

lemma revealTeam_earliest:
  "revealTeam subs t p T =
     (if 0 < idx (frozenSubmissions T) p 0 \<and> positiveAccepts subs t p \<noteq> []
      then (case markSolved (T\<lparr>frozenSubmissions := touch (frozenSubmissions T) p 0\<rparr>) p
                   (Min (set (positiveAccepts subs t p))) of
              Inl e \<Rightarrow> Inl e | Inr T2 \<Rightarrow> Inr (T2, True))
      else Inr (T\<lparr>frozenSubmissions := touch (frozenSubmissions T) p 0\<rparr>, False))"
proof -
  have "positiveAccepts subs t p \<noteq> [] \<Longrightarrow> Min (set (positiveAccepts subs t p)) \<noteq> - 1"
  proof
    assume ne: "positiveAccepts subs t p \<noteq> []" and m: "Min (set (positiveAccepts subs t p)) = - 1"
    from ne have "Min (set (positiveAccepts subs t p)) \<in> set (positiveAccepts subs t p)"
      by (intro Min_in) simp_all
    with m show False by (auto simp: positiveAccepts_def)
  qed
  then show ?thesis
    by (auto simp: revealTeam_def Let_def firstACTimeOf_earliest)
qed

text \<open>
  Claim C1 fails on \<open>zeroCmds\<close>: an accepted submission of team \<open>t\<close> on problem \<open>A\<close> is
  received while the board is frozen, at time 0. The scroll reveals the problem (the
  board before shows \<^verbatim>\<open>0/1\<close>) and leaves it unsolved: \<^verbatim>\<open>solvedCount\<close> stays 0 and the
  board after shows \<^verbatim>\<open>.\<close>, where the claim has the problem solved at time 0.
\<close>

theorem scroll_drops_accept_at_zero:
  "map_sum id (\<lambda>(s, out). (idx (isSolved (teamAt s ''t'')) ''A'' False,
                            solvedCount (teamAt s ''t''), penaltyTime (teamAt s ''t''),
                            idx (frozenSubmissions (teamAt s ''t'')) ''A'' 0, out))
     (run init zeroCmds)
   = Inr (False, 0, 0, 0,
          [''[Info]Add successfully.'', ''[Info]Competition starts.'', ''[Info]Freeze scoreboard.'',
           ''[Info]Scroll scoreboard.'', ''t 1 0 0 0/1'', ''t 1 0 0 .''])"
  by code_simp

lemma rankingLine_absent: "t \<notin> set order \<Longrightarrow> rankingLine r order t = []"
  by (induction order arbitrary: r) auto

text \<open>
  A submission for a name that is not a key of \<^verbatim>\<open>teams\<close>. If the board is frozen or the
  status is not \<^verbatim>\<open>ACCEPTED\<close> the submission goes through: a \<^verbatim>\<open>Team()\<close> with the empty
  name is stored under the name, the ranking is as before, and the two queries answer
  with their information line, \<^verbatim>\<open>queryRanking\<close> with no line for a rank. If the board
  is not frozen and the status is \<^verbatim>\<open>ACCEPTED\<close>, \<^verbatim>\<open>getProblemPenalty\<close> reads
  \<^verbatim>\<open>wrongSubmissions.at(p)\<close> in a map that has no key and the program ends.
\<close>

lemma submit_unknown_team:
  assumes "map_of (teams s) t = None" and "t \<notin> set (teamOrder s)"
    and "isFrozen s \<or> stringToStatus statusStr \<noteq> ACCEPTED"
  shows "\<exists>s'. submitProblem p t statusStr tm s = Inr s'
    \<and> map_of (teams s') t \<noteq> None \<and> name (teamAt s' t) = []
    \<and> teamOrder s' = teamOrder s
    \<and> queryRanking t s' = ''[Info]Complete query ranking.'' #
        (if isFrozen s
         then [''[Warning]Scoreboard is frozen. The ranking may be inaccurate until it were scrolled.'']
         else [])
    \<and> hd (querySubmission t q statusStr' s') = ''[Info]Complete query submission.''"
proof -
  from assms(1) have T: "teamAt s t = newTeam []" by (simp add: teamAt_def idx_def)
  have un: "\<not> idx (isSolved (newTeam [])) p False" by (simp add: idx_def newTeam_def)
  define T' where "T' = (if isFrozen s
      then (touched (newTeam []) p)\<lparr>frozenSubmissions := incr (frozenSubmissions (newTeam [])) p\<rparr>
      else (touched (newTeam []) p)\<lparr>wrongSubmissions := incr (wrongSubmissions (newTeam [])) p\<rparr>)"
  have T': "submitTeam (isFrozen s) p (stringToStatus statusStr) tm (newTeam []) = Inr T'"
    using assms(3) un by (auto simp: submitTeam_def Let_def touched_def T'_def)
  have nm: "name T' = []"
    by (simp add: T'_def touched_def newTeam_def)
  from T T' obtain s' where s': "submitProblem p t statusStr tm s = Inr s'"
    by (simp add: submitProblem_eq)
  from submitProblem_Inr [OF s'] T T' have tm: "teams s' = AList.update t T' (teams s)"
    and ord: "teamOrder s' = teamOrder s" and fr: "isFrozen s' = isFrozen s" by auto
  have key: "map_of (teams s') t = Some T'" by (simp add: tm update_conv')
  have at: "teamAt s' t = T'" by (simp add: teamAt_teams [OF tm])
  show ?thesis
    using s' key at nm ord fr assms(2)
    by (simp add: queryRanking_def querySubmission_def rankingLine_absent)
qed

lemma submit_unknown_team_accepted:
  assumes "map_of (teams s) t = None" and "\<not> isFrozen s"
    and "stringToStatus statusStr = ACCEPTED"
  shows "submitProblem p t statusStr tm s = Inl OutOfRange"
proof -
  from assms(1) have T: "teamAt s t = newTeam []" by (simp add: teamAt_def idx_def)
  have "submitTeam False p ACCEPTED tm (newTeam []) = Inl OutOfRange"
    by (simp add: submitTeam_def Let_def idx_def newTeam_def touch_def markSolved_def
          getProblemPenalty_def at_def incr_def)
  with assms T show ?thesis by (simp add: submitProblem_eq)
qed

text \<open>
  Claim C9 fails on the started board with one registered team: the command
  \<^verbatim>\<open>SUBMIT A BY ghost WITH Accepted AT 5\<close> ends the program with
  \<^verbatim>\<open>std::out_of_range\<close>, where the same submission with \<^verbatim>\<open>Wrong_Answer\<close> goes through
  and leaves \<open>ghost\<close> a key of \<^verbatim>\<open>teams\<close> that is not in the ranking.
\<close>

theorem submit_unregistered_accepted_fails:
  "map_of (teams startedBoard) ''ghost'' = None
   \<and> map_sum id (\<lambda>(s, out). out) (step (SUBMIT ''A'' ''ghost'' ''Accepted'' 5) startedBoard)
      = Inl OutOfRange
   \<and> map_sum id (\<lambda>(s, out). (map_of (teams s) ''ghost'' \<noteq> None, teamOrder s, out))
        (run startedBoard [SUBMIT ''A'' ''ghost'' ''Wrong_Answer'' 5, QUERY_RANKING ''ghost'',
                           QUERY_SUBMISSION ''ghost'' ''ALL'' ''ALL''])
      = Inr (True, [''t''],
             [''[Info]Complete query ranking.'', ''[Info]Complete query submission.'',
              ''ghost A Wrong_Answer 5''])"
  by code_simp

end
